theory Spec2Isabelle
  imports Main "HOL-Library.Multiset"
begin

section \<open>JavaScript built-ins used by the template builder\<close>

text \<open>
  The template builder (function \<open>Template\<close>, second document of
  \<open>components/Dashboard/Dashboard.js\<close>) keeps its state in React \<open>useState\<close> cells and
  changes it through updater functions over JavaScript arrays. A JavaScript array can hold
  \<open>undefined\<close>, and the splice idiom of the reorder handlers can put it there, so an array of
  title fields or of questions is a list of options: \<open>None\<close> is \<open>undefined\<close>. Reading a
  property of \<open>undefined\<close> raises a \<open>TypeError\<close>; it is the only exception the handlers
  can raise.
\<close>

datatype error = TypeError

text \<open>
  \<open>Array.prototype.splice(start, deleteCount, ...items)\<close> for integer arguments, as
  ECMAScript defines it: a negative start counts from the end, a start beyond the end is the
  end, and the delete count is clamped to what is left. The result is the pair of the array of
  removed elements (the return value) and the array after the call (the mutated receiver).
\<close>

definition js_splice :: "int \<Rightarrow> int \<Rightarrow> 'a list \<Rightarrow> 'a list \<Rightarrow> 'a list \<times> 'a list" where
  "js_splice start deleteCount items arr =
     (let len = int (length arr);
          actualStart = (if start < 0 then max (len + start) 0 else min start len);
          actualDeleteCount = min (max deleteCount 0) (len - actualStart)
      in (take (nat actualDeleteCount) (drop (nat actualStart) arr),
          take (nat actualStart) arr @ items @ drop (nat (actualStart + actualDeleteCount)) arr))"

text \<open>
  The destructuring \<open>const [removed] = ...\<close>: the first element of the array, or
  \<open>undefined\<close> when the array is empty.
\<close>

definition first_elem :: "'a option list \<Rightarrow> 'a option" where
  "first_elem arr = (case arr of [] \<Rightarrow> None | x # _ \<Rightarrow> x)"

text \<open>
  The three lines every reorder handler runs on a copy of its array:
  \<^verbatim>\<open>const [removed] = newArr.splice(src, 1); newArr.splice(tgt, 0, removed);\<close>
\<close>

definition splice_reinsert :: "int \<Rightarrow> int \<Rightarrow> 'a option list \<Rightarrow> 'a option list" where
  "splice_reinsert src tgt arr =
     (case js_splice src 1 [] arr of
        (removedArr, newArr) \<Rightarrow> snd (js_splice tgt 0 [first_elem removedArr] newArr))"

text \<open>
  \<open>Array.prototype.findIndex\<close>: the index of the first element that satisfies the
  predicate, \<open>-1\<close> when there is none.
\<close>

fun findIndex :: "('a \<Rightarrow> bool) \<Rightarrow> 'a list \<Rightarrow> int" where
  "findIndex P [] = - 1"
| "findIndex P (x # xs) =
     (if P x then 0 else (let r = findIndex P xs in if r < 0 then - 1 else r + 1))"

text \<open>
  \<open>Array.prototype.filter\<close> and \<open>Array.prototype.map\<close> with a callback that can raise:
  the elements are visited in order and the first exception leaves the call.
\<close>

fun js_filter :: "('a \<Rightarrow> error + bool) \<Rightarrow> 'a list \<Rightarrow> error + 'a list" where
  "js_filter p [] = Inr []"
| "js_filter p (x # xs) =
     (case p x of
        Inl e \<Rightarrow> Inl e
      | Inr b \<Rightarrow>
          (case js_filter p xs of
             Inl e \<Rightarrow> Inl e
           | Inr ys \<Rightarrow> Inr (if b then x # ys else ys)))"

fun js_map :: "('a \<Rightarrow> error + 'b) \<Rightarrow> 'a list \<Rightarrow> error + 'b list" where
  "js_map f [] = Inr []"
| "js_map f (x # xs) =
     (case f x of
        Inl e \<Rightarrow> Inl e
      | Inr y \<Rightarrow>
          (case js_map f xs of
             Inl e \<Rightarrow> Inl e
           | Inr ys \<Rightarrow> Inr (y # ys)))"

section \<open>The state of the template builder\<close>

text \<open>
  The objects of the component. The property \<open>id\<close> is \<open>fid\<close>, \<open>qid\<close> and \<open>pid\<close>
  (\<open>id\<close> is the identity function of HOL), \<open>type\<close> is \<open>ftype\<close> and \<open>qtype\<close>, and the
  question's \<open>text\<close> is \<open>qtext\<close>. Identifiers are JavaScript numbers that hold integers
  (the literals \<open>1\<close> to \<open>4\<close> and readings of \<open>Date.now()\<close>); response types are the strings
  of \<open>RESPONSE_TYPES\<close>.
\<close>

record field =
  fid :: int
  label :: string
  ftype :: string

record question =
  qid :: int
  qtext :: string
  qtype :: string

text \<open>
  No handler stores \<open>undefined\<close> in the page array (\<open>movePage\<close> checks both of its
  indices), so the pages are a plain list; the questions of a page are an array that can hold
  \<open>undefined\<close>.
\<close>

record page =
  pid :: int
  title :: string
  questions :: "question option list"

text \<open>The drag state of the questions, \<open>{ pageId, idx }\<close>, both \<open>null\<close> when idle.\<close>

record dragged_question =
  dragPageId :: "int option"
  dragIdx :: "int option"

record template =
  templateTitle :: string
  templateDescription :: string
  templateImage :: "string option"
  titleFields :: "field option list"
  pages :: "page list"
  draggedFieldIdx :: "int option"
  draggedQuestion :: dragged_question

text \<open>The initial values of the \<open>useState\<close> cells.\<close>

definition initial :: template where
  "initial =
     \<lparr> templateTitle = ''Untitled template'',
       templateDescription = '''',
       templateImage = None,
       titleFields =
         [ Some \<lparr> fid = 1, label = ''Site conducte'', ftype = ''site'' \<rparr>,
           Some \<lparr> fid = 2, label = ''Conducted on'', ftype = ''date'' \<rparr>,
           Some \<lparr> fid = 3, label = ''Prepared by'', ftype = ''person'' \<rparr>,
           Some \<lparr> fid = 4, label = ''Location'', ftype = ''location'' \<rparr> ],
       pages =
         [ \<lparr> pid = 1, title = ''Untitled Page'',
             questions = [ Some \<lparr> qid = 1, qtext = '''', qtype = ''yesno'' \<rparr> ] \<rparr> ],
       draggedFieldIdx = None,
       draggedQuestion = \<lparr> dragPageId = None, dragIdx = None \<rparr> \<rparr>"

section \<open>Title field handlers\<close>

text \<open>
  The component calls \<open>handleTitleFieldChange\<close> with the keys \<open>'label'\<close> and \<open>'type'\<close>
  only, and \<open>handleQuestionChange\<close> with \<open>'text'\<close> and \<open>'type'\<close> only; the computed
  property \<open>[key]: value\<close> is the update of that property.
\<close>

datatype field_key = Key_label | Key_type

datatype question_key = Key_text | Key_qtype

definition set_field_key :: "field_key \<Rightarrow> string \<Rightarrow> field \<Rightarrow> field" where
  "set_field_key key v f =
     (case key of Key_label \<Rightarrow> f\<lparr>label := v\<rparr> | Key_type \<Rightarrow> f\<lparr>ftype := v\<rparr>)"

definition set_question_key :: "question_key \<Rightarrow> string \<Rightarrow> question \<Rightarrow> question" where
  "set_question_key key v q =
     (case key of Key_text \<Rightarrow> q\<lparr>qtext := v\<rparr> | Key_qtype \<Rightarrow> q\<lparr>qtype := v\<rparr>)"

definition handleTitleFieldChange ::
  "int \<Rightarrow> field_key \<Rightarrow> string \<Rightarrow> template \<Rightarrow> error + template" where
  "handleTitleFieldChange i key v s =
     (case js_map
             (\<lambda>f. case f of
                    None \<Rightarrow> Inl TypeError
                  | Some f' \<Rightarrow> Inr (Some (if fid f' = i then set_field_key key v f' else f')))
             (titleFields s) of
        Inl e \<Rightarrow> Inl e
      | Inr flds \<Rightarrow> Inr (s\<lparr>titleFields := flds\<rparr>))"

text \<open>The identifier of a new element is the reading \<open>now\<close> of \<open>Date.now()\<close>.\<close>

definition addTitleField :: "int \<Rightarrow> template \<Rightarrow> template" where
  "addTitleField now s =
     s\<lparr>titleFields := titleFields s @ [Some \<lparr> fid = now, label = '''', ftype = ''site'' \<rparr>]\<rparr>"

definition removeTitleField :: "int \<Rightarrow> template \<Rightarrow> error + template" where
  "removeTitleField i s =
     (case js_filter
             (\<lambda>f. case f of None \<Rightarrow> Inl TypeError | Some f' \<Rightarrow> Inr (fid f' \<noteq> i))
             (titleFields s) of
        Inl e \<Rightarrow> Inl e
      | Inr flds \<Rightarrow> Inr (s\<lparr>titleFields := flds\<rparr>))"

definition moveTitleField :: "int \<Rightarrow> string \<Rightarrow> template \<Rightarrow> template" where
  "moveTitleField idx direction s =
     s\<lparr>titleFields :=
         (let flds = titleFields s;
              newIdx = (if direction = ''up'' then idx - 1 else idx + 1)
          in if newIdx < 0 \<or> newIdx \<ge> int (length flds) then flds
             else splice_reinsert idx newIdx flds)\<rparr>"

definition handleTitleFieldDragStart :: "int \<Rightarrow> template \<Rightarrow> template" where
  "handleTitleFieldDragStart idx s = s\<lparr>draggedFieldIdx := Some idx\<rparr>"

definition handleTitleFieldDragOver :: "int \<Rightarrow> template \<Rightarrow> bool" where
  "handleTitleFieldDragOver idx s = (Some idx \<noteq> draggedFieldIdx s)"

definition handleTitleFieldDrop :: "int \<Rightarrow> template \<Rightarrow> template" where
  "handleTitleFieldDrop idx s =
     (case draggedFieldIdx s of
        None \<Rightarrow> s
      | Some dragged \<Rightarrow>
          if dragged = idx then s
          else s\<lparr>titleFields := splice_reinsert dragged idx (titleFields s),
                 draggedFieldIdx := None\<rparr>)"

section \<open>Page handlers\<close>

text \<open>
  \<open>addPage\<close> reads the clock twice: \<open>now1\<close> is the identifier of the page and
  \<open>now2 + 1\<close> the identifier of its first question.
\<close>

definition addPage :: "int \<Rightarrow> int \<Rightarrow> template \<Rightarrow> template" where
  "addPage now1 now2 s =
     s\<lparr>pages := pages s @
         [\<lparr> pid = now1, title = ''Untitled Page'',
            questions = [Some \<lparr> qid = now2 + 1, qtext = '''', qtype = ''yesno'' \<rparr>] \<rparr>]\<rparr>"

definition removePage :: "int \<Rightarrow> template \<Rightarrow> template" where
  "removePage i s =
     s\<lparr>pages := (let pgs = pages s
                 in if length pgs > 1 then filter (\<lambda>p. pid p \<noteq> i) pgs else pgs)\<rparr>"

definition handlePageTitleChange :: "int \<Rightarrow> string \<Rightarrow> template \<Rightarrow> template" where
  "handlePageTitleChange i v s =
     s\<lparr>pages := map (\<lambda>p. if pid p = i then p\<lparr>title := v\<rparr> else p) (pages s)\<rparr>"

text \<open>
  \<open>movePage\<close> finds its index by identifier and checks it, so the element it removes
  exists; the branch for an empty removal is never taken (lemma \<open>movePage_removed\<close>
  below).
\<close>

definition movePage :: "int \<Rightarrow> string \<Rightarrow> template \<Rightarrow> template" where
  "movePage i direction s =
     s\<lparr>pages :=
         (let pgs = pages s;
              idx = findIndex (\<lambda>p. pid p = i) pgs
          in if idx < 0 then pgs
             else
               (let newIdx = (if direction = ''up'' then idx - 1 else idx + 1)
                in if newIdx < 0 \<or> newIdx \<ge> int (length pgs) then pgs
                   else
                     (case js_splice idx 1 [] pgs of
                        (removedArr, newPages) \<Rightarrow>
                          (case removedArr of
                             [] \<Rightarrow> newPages
                           | removed # _ \<Rightarrow> snd (js_splice newIdx 0 [removed] newPages)))))\<rparr>"

section \<open>Question handlers\<close>

text \<open>
  Every question handler maps a callback over the page array; the callback changes the pages
  whose identifier is the \<open>pageId\<close> of the call and returns every other page as it is.
  Each callback is a definition of its own here (\<open>addQuestion_page\<close> is the arrow function
  that \<open>addQuestion\<close> passes to \<open>pgs.map\<close>, and so on).
\<close>

text \<open>
  \<open>addQuestion\<close> reads \<open>Date.now()\<close> inside the callback, so the clock is read once for
  every page that has the identifier \<open>pageId\<close>, while the callback runs on that page. The
  clock of a call is a function of the position in the page array: \<open>clock k\<close> is what
  \<open>Date.now()\<close> returns while the callback runs on the page at index \<open>k\<close>. The argument
  \<open>now\<close> of the callback is the reading it takes on its page.
\<close>

definition addQuestion_page :: "int \<Rightarrow> int \<Rightarrow> page \<Rightarrow> page" where
  "addQuestion_page now pageId p =
     (if pid p = pageId
      then p\<lparr>questions := questions p @ [Some \<lparr> qid = now, qtext = '''', qtype = ''yesno'' \<rparr>]\<rparr>
      else p)"

definition addQuestion :: "(nat \<Rightarrow> int) \<Rightarrow> int \<Rightarrow> template \<Rightarrow> template" where
  "addQuestion clock pageId s =
     s\<lparr>pages := map (\<lambda>(k, p). addQuestion_page (clock k) pageId p) (enumerate 0 (pages s))\<rparr>"

definition removeQuestion_page :: "int \<Rightarrow> int \<Rightarrow> page \<Rightarrow> error + page" where
  "removeQuestion_page pageId i p =
     (if pid p = pageId
      then (if length (questions p) > 1
            then (case js_filter
                         (\<lambda>q. case q of None \<Rightarrow> Inl TypeError | Some q' \<Rightarrow> Inr (qid q' \<noteq> i))
                         (questions p) of
                    Inl e \<Rightarrow> Inl e
                  | Inr qs \<Rightarrow> Inr (p\<lparr>questions := qs\<rparr>))
            else Inr p)
      else Inr p)"

definition removeQuestion :: "int \<Rightarrow> int \<Rightarrow> template \<Rightarrow> error + template" where
  "removeQuestion pageId i s =
     (case js_map (removeQuestion_page pageId i) (pages s) of
        Inl e \<Rightarrow> Inl e
      | Inr pgs \<Rightarrow> Inr (s\<lparr>pages := pgs\<rparr>))"

definition handleQuestionChange_page ::
  "int \<Rightarrow> int \<Rightarrow> question_key \<Rightarrow> string \<Rightarrow> page \<Rightarrow> error + page" where
  "handleQuestionChange_page pageId i key v p =
     (if pid p = pageId
      then (case js_map
                   (\<lambda>q. case q of
                          None \<Rightarrow> Inl TypeError
                        | Some q' \<Rightarrow>
                            Inr (Some (if qid q' = i then set_question_key key v q' else q')))
                   (questions p) of
              Inl e \<Rightarrow> Inl e
            | Inr qs \<Rightarrow> Inr (p\<lparr>questions := qs\<rparr>))
      else Inr p)"

definition handleQuestionChange ::
  "int \<Rightarrow> int \<Rightarrow> question_key \<Rightarrow> string \<Rightarrow> template \<Rightarrow> error + template" where
  "handleQuestionChange pageId i key v s =
     (case js_map (handleQuestionChange_page pageId i key v) (pages s) of
        Inl e \<Rightarrow> Inl e
      | Inr pgs \<Rightarrow> Inr (s\<lparr>pages := pgs\<rparr>))"

definition moveQuestion_page :: "int \<Rightarrow> int \<Rightarrow> string \<Rightarrow> page \<Rightarrow> page" where
  "moveQuestion_page pageId idx direction p =
     (if pid p \<noteq> pageId then p
      else
        (let newIdx = (if direction = ''up'' then idx - 1 else idx + 1)
         in if newIdx < 0 \<or> newIdx \<ge> int (length (questions p)) then p
            else p\<lparr>questions := splice_reinsert idx newIdx (questions p)\<rparr>))"

definition moveQuestion :: "int \<Rightarrow> int \<Rightarrow> string \<Rightarrow> template \<Rightarrow> template" where
  "moveQuestion pageId idx direction s =
     s\<lparr>pages := map (moveQuestion_page pageId idx direction) (pages s)\<rparr>"

definition handleQuestionDragStart :: "int \<Rightarrow> int \<Rightarrow> template \<Rightarrow> template" where
  "handleQuestionDragStart pageId idx s =
     s\<lparr>draggedQuestion := \<lparr> dragPageId = Some pageId, dragIdx = Some idx \<rparr>\<rparr>"

definition handleQuestionDragOver :: "int \<Rightarrow> int \<Rightarrow> template \<Rightarrow> bool" where
  "handleQuestionDragOver pageId idx s =
     (dragPageId (draggedQuestion s) \<noteq> Some pageId \<or> dragIdx (draggedQuestion s) \<noteq> Some idx)"

text \<open>
  The callback of \<open>handleQuestionDrop\<close> reads the index of the drag state, \<open>dragged\<close>,
  and the two arguments of the drop.
\<close>

definition handleQuestionDrop_page :: "int \<Rightarrow> int \<Rightarrow> int \<Rightarrow> page \<Rightarrow> page" where
  "handleQuestionDrop_page dragged pageId idx p =
     (if pid p \<noteq> pageId then p
      else p\<lparr>questions := splice_reinsert dragged idx (questions p)\<rparr>)"

definition handleQuestionDrop :: "int \<Rightarrow> int \<Rightarrow> template \<Rightarrow> template" where
  "handleQuestionDrop pageId idx s =
     (case dragPageId (draggedQuestion s) of
        None \<Rightarrow> s
      | Some _ \<Rightarrow>
          (case dragIdx (draggedQuestion s) of
             None \<Rightarrow> s
           | Some dragged \<Rightarrow>
               s\<lparr>pages := map (handleQuestionDrop_page dragged pageId idx) (pages s),
                 draggedQuestion := \<lparr> dragPageId = None, dragIdx = None \<rparr>\<rparr>))"

section \<open>Template metadata handlers\<close>

text \<open>
  The inputs of the header call the setters of the title and of the description with the
  value typed. \<open>handleImageChange\<close> stores the data URL of the chosen file when there is
  one; the argument is that data URL, \<open>None\<close> when no file was chosen.
\<close>

definition setTemplateTitle :: "string \<Rightarrow> template \<Rightarrow> template" where
  "setTemplateTitle v s = s\<lparr>templateTitle := v\<rparr>"

definition setTemplateDescription :: "string \<Rightarrow> template \<Rightarrow> template" where
  "setTemplateDescription v s = s\<lparr>templateDescription := v\<rparr>"

definition handleImageChange :: "string option \<Rightarrow> template \<Rightarrow> template" where
  "handleImageChange file s =
     (case file of None \<Rightarrow> s | Some dataUrl \<Rightarrow> s\<lparr>templateImage := Some dataUrl\<rparr>)"

section \<open>Events of the rendered component\<close>

text \<open>
  The handlers are closures of the component: they run only when an element of the rendered
  markup receives an event. An event carries the arguments its element was rendered with
  and, for the three insertions, the readings of \<open>Date.now()\<close> taken while the handler
  runs (for \<open>addQuestion\<close> the clock of the call). A handler that raises ends the run.
\<close>

datatype event =
    SetTemplateTitle string
  | SetTemplateDescription string
  | ImageChange "string option"
  | TitleFieldChange int field_key string
  | AddTitleField int
  | RemoveTitleField int
  | MoveTitleField int string
  | TitleFieldDragStart int
  | TitleFieldDrop int
  | AddPage int int
  | RemovePage int
  | PageTitleChange int string
  | MovePage int string
  | AddQuestion "nat \<Rightarrow> int" int
  | RemoveQuestion int int
  | QuestionChange int int question_key string
  | MoveQuestion int int string
  | QuestionDragStart int int
  | QuestionDrop int int

fun handle :: "event \<Rightarrow> template \<Rightarrow> error + template" where
  "handle (SetTemplateTitle v) s = Inr (setTemplateTitle v s)"
| "handle (SetTemplateDescription v) s = Inr (setTemplateDescription v s)"
| "handle (ImageChange file) s = Inr (handleImageChange file s)"
| "handle (TitleFieldChange i key v) s = handleTitleFieldChange i key v s"
| "handle (AddTitleField now) s = Inr (addTitleField now s)"
| "handle (RemoveTitleField i) s = removeTitleField i s"
| "handle (MoveTitleField idx direction) s = Inr (moveTitleField idx direction s)"
| "handle (TitleFieldDragStart idx) s = Inr (handleTitleFieldDragStart idx s)"
| "handle (TitleFieldDrop idx) s = Inr (handleTitleFieldDrop idx s)"
| "handle (AddPage now1 now2) s = Inr (addPage now1 now2 s)"
| "handle (RemovePage i) s = Inr (removePage i s)"
| "handle (PageTitleChange i v) s = Inr (handlePageTitleChange i v s)"
| "handle (MovePage i direction) s = Inr (movePage i direction s)"
| "handle (AddQuestion clock pageId) s = Inr (addQuestion clock pageId s)"
| "handle (RemoveQuestion pageId i) s = removeQuestion pageId i s"
| "handle (QuestionChange pageId i key v) s = handleQuestionChange pageId i key v s"
| "handle (MoveQuestion pageId idx direction) s = Inr (moveQuestion pageId idx direction s)"
| "handle (QuestionDragStart pageId idx) s = Inr (handleQuestionDragStart pageId idx s)"
| "handle (QuestionDrop pageId idx) s = Inr (handleQuestionDrop pageId idx s)"

fun run :: "event list \<Rightarrow> template \<Rightarrow> error + template" where
  "run [] s = Inr s"
| "run (e # es) s = (case handle e s of Inl err \<Rightarrow> Inl err | Inr s' \<Rightarrow> run es s')"

section \<open>Notions used in the statements\<close>

text \<open>
  What the splice idiom computes when its source index is in range, on natural numbers: the
  element at \<open>i\<close> is taken out and put back before the element that stands at \<open>j\<close> once
  it is out.
\<close>

definition reinsert_at :: "nat \<Rightarrow> nat \<Rightarrow> 'a list \<Rightarrow> 'a list" where
  "reinsert_at i j xs =
     (let rest = take i xs @ drop (Suc i) xs in take j rest @ xs ! i # drop j rest)"

text \<open>The identifiers of an array of title fields or of questions, \<open>undefined\<close> left out.\<close>

definition field_ids :: "field option list \<Rightarrow> int list" where
  "field_ids flds = map fid (List.map_filter (\<lambda>f. f) flds)"

definition question_ids :: "question option list \<Rightarrow> int list" where
  "question_ids qs = map qid (List.map_filter (\<lambda>q. q) qs)"

text \<open>
  The minimum cardinality of the data model: at least one page, and at least one question
  on every page.
\<close>

definition min_cardinality :: "template \<Rightarrow> bool" where
  "min_cardinality s \<longleftrightarrow> pages s \<noteq> [] \<and> list_all (\<lambda>p. questions p \<noteq> []) (pages s)"

text \<open>
  The frame of an operation addressed to the page \<open>pageId\<close>: the metadata and the title
  fields are the same, there are as many pages, and every page with another identifier is
  the same at the same position.
\<close>

definition question_frame :: "int \<Rightarrow> template \<Rightarrow> template \<Rightarrow> bool" where
  "question_frame pageId s s' \<longleftrightarrow>
     templateTitle s' = templateTitle s \<and>
     templateDescription s' = templateDescription s \<and>
     templateImage s' = templateImage s \<and>
     titleFields s' = titleFields s \<and>
     list_all2 (\<lambda>p p'. pid p \<noteq> pageId \<longrightarrow> p' = p) (pages s) (pages s')"

section \<open>Concrete states\<close>

text \<open>
  Two clocks for a call of \<open>addQuestion\<close>: \<open>steady_clock t\<close> reads \<open>t\<close> on every page
  (the whole call runs within one millisecond), \<open>ticking_clock t\<close> reads one millisecond
  more on every page.
\<close>

definition steady_clock :: "int \<Rightarrow> nat \<Rightarrow> int" where
  "steady_clock t k = t"

definition ticking_clock :: "int \<Rightarrow> nat \<Rightarrow> int" where
  "ticking_clock t k = t + int k"

text \<open>
  States used to evaluate the handlers. \<open>two_pages\<close> is the initial state after a second
  question was added to the first page, a second page was added, and a second question was
  added to that page (lemma \<open>two_pages_reachable\<close>); the identifiers of the new elements
  are clock readings in milliseconds.
\<close>

definition two_pages :: template where
  "two_pages =
     initial\<lparr>pages :=
       [ \<lparr> pid = 1, title = ''Untitled Page'',
           questions = [ Some \<lparr> qid = 1, qtext = '''', qtype = ''yesno'' \<rparr>,
                         Some \<lparr> qid = 1700000000000, qtext = '''', qtype = ''yesno'' \<rparr> ] \<rparr>,
         \<lparr> pid = 1700000005000, title = ''Untitled Page'',
           questions = [ Some \<lparr> qid = 1700000005001, qtext = '''', qtype = ''yesno'' \<rparr>,
                         Some \<lparr> qid = 1700000009000, qtext = '''', qtype = ''yesno'' \<rparr> ] \<rparr> ]\<rparr>"

text \<open>
  Two states with a drag state left over from a drag that ended outside every row: in
  \<open>stale_title_drag\<close> the fourth title field was dragged and the first title field was
  removed afterwards, in \<open>stale_question_drag\<close> the second question of the first page was
  dragged and removed afterwards. Both are reachable (lemmas \<open>stale_title_drag_reachable\<close>
  and \<open>stale_question_drag_reachable\<close>).
\<close>

definition stale_title_drag :: template where
  "stale_title_drag =
     initial\<lparr>titleFields :=
         [ Some \<lparr> fid = 2, label = ''Conducted on'', ftype = ''date'' \<rparr>,
           Some \<lparr> fid = 3, label = ''Prepared by'', ftype = ''person'' \<rparr>,
           Some \<lparr> fid = 4, label = ''Location'', ftype = ''location'' \<rparr> ],
       draggedFieldIdx := Some 3,
       draggedQuestion := \<lparr> dragPageId = Some 1, dragIdx = Some 0 \<rparr>\<rparr>"

definition stale_question_drag :: template where
  "stale_question_drag =
     two_pages\<lparr>pages :=
         [ \<lparr> pid = 1, title = ''Untitled Page'',
             questions = [ Some \<lparr> qid = 1, qtext = '''', qtype = ''yesno'' \<rparr> ] \<rparr>,
           pages two_pages ! 1 ],
       draggedFieldIdx := Some 0,
       draggedQuestion := \<lparr> dragPageId = Some 1, dragIdx = Some 1 \<rparr>\<rparr>"

text \<open>
  \<open>twin_pages\<close> is the initial state after two pages were added within one millisecond:
  both readings of the clock are the same, and so are the identifiers of the two pages (lemma
  \<open>twin_pages_reachable\<close>).
\<close>

definition twin_pages :: template where
  "twin_pages =
     initial\<lparr>pages :=
       [ \<lparr> pid = 1, title = ''Untitled Page'',
           questions = [ Some \<lparr> qid = 1, qtext = '''', qtype = ''yesno'' \<rparr> ] \<rparr>,
         \<lparr> pid = 1700000000000, title = ''Untitled Page'',
           questions = [ Some \<lparr> qid = 1700000000001, qtext = '''', qtype = ''yesno'' \<rparr> ] \<rparr>,
         \<lparr> pid = 1700000000000, title = ''Untitled Page'',
           questions = [ Some \<lparr> qid = 1700000000001, qtext = '''', qtype = ''yesno'' \<rparr> ] \<rparr> ]\<rparr>"

text \<open>
  \<open>twin_questions\<close> is the initial state after two questions were added to its page within
  one millisecond: both have the same identifier (lemma \<open>twin_questions_reachable\<close>).
\<close>

definition twin_questions :: template where
  "twin_questions =
     initial\<lparr>pages :=
       [ \<lparr> pid = 1, title = ''Untitled Page'',
           questions = [ Some \<lparr> qid = 1, qtext = '''', qtype = ''yesno'' \<rparr>,
                         Some \<lparr> qid = 1700000000000, qtext = '''', qtype = ''yesno'' \<rparr>,
                         Some \<lparr> qid = 1700000000000, qtext = '''', qtype = ''yesno'' \<rparr> ] \<rparr> ]\<rparr>"

section \<open>Identifiers and the clock\<close>

text \<open>
  \<open>distinct_ids\<close>: no two pages have the same identifier, and on every page no two
  questions have. An insertion is \<open>fresh\<close> when the reading of the clock that becomes the
  identifier is not an identifier of the collection it extends; \<open>fresh_run\<close> says so of
  every event of a run.
\<close>

definition distinct_ids :: "template \<Rightarrow> bool" where
  "distinct_ids s \<longleftrightarrow>
     distinct (map pid (pages s)) \<and>
     list_all (\<lambda>p. distinct (question_ids (questions p))) (pages s)"

fun fresh :: "event \<Rightarrow> template \<Rightarrow> bool" where
  "fresh (AddPage now1 now2) s = (now1 \<notin> set (map pid (pages s)))"
| "fresh (AddQuestion clock pageId) s =
     list_all (\<lambda>(k, p). pid p = pageId \<longrightarrow> clock k \<notin> set (question_ids (questions p)))
       (enumerate 0 (pages s))"
| "fresh _ s = True"

fun fresh_run :: "event list \<Rightarrow> template \<Rightarrow> bool" where
  "fresh_run [] s = True"
| "fresh_run (e # es) s =
     (fresh e s \<and> (case handle e s of Inl _ \<Rightarrow> True | Inr s' \<Rightarrow> fresh_run es s'))"

section \<open>The splice idiom\<close>

text \<open>
  With the source index in range the idiom is \<open>reinsert_at\<close>; with the source index at or
  beyond the end nothing is removed and \<open>undefined\<close> is inserted. Moving an element to the
  index next to it exchanges the two neighbours.
\<close>


lemma js_splice_remove_in:
  "0 \<le> i \<Longrightarrow> i < int (length arr) \<Longrightarrow>
   js_splice i 1 [] arr = ([arr ! nat i], take (nat i) arr @ drop (Suc (nat i)) arr)"
  apply (simp add: js_splice_def Let_def min_def max_def)
  apply (auto simp: take_Suc_conv_app_nth nat_add_distrib Cons_nth_drop_Suc)
  done

lemma js_splice_remove_out:
  "int (length arr) \<le> i \<Longrightarrow> js_splice i 1 [] arr = ([], arr)"
  by (simp add: js_splice_def Let_def min_def max_def)

lemma js_splice_insert:
  "0 \<le> j \<Longrightarrow> snd (js_splice j 0 [x] arr) = take (nat j) arr @ x # drop (nat j) arr"
  by (auto simp add: js_splice_def Let_def min_def max_def)

lemma splice_reinsert_in:
  "0 \<le> src \<Longrightarrow> src < int (length arr) \<Longrightarrow> 0 \<le> tgt \<Longrightarrow>
   splice_reinsert src tgt arr = reinsert_at (nat src) (nat tgt) arr"
  by (simp add: splice_reinsert_def js_splice_remove_in js_splice_insert first_elem_def reinsert_at_def)

lemma splice_reinsert_out:
  "int (length arr) \<le> src \<Longrightarrow> 0 \<le> tgt \<Longrightarrow>
   splice_reinsert src tgt arr = take (nat tgt) arr @ None # drop (nat tgt) arr"
  by (simp add: splice_reinsert_def js_splice_remove_out js_splice_insert first_elem_def)

lemma reinsert_at_length: "i < length xs \<Longrightarrow> length (reinsert_at i j xs) = length xs"
  by (auto simp: reinsert_at_def Let_def)

lemma reinsert_at_mset: "i < length xs \<Longrightarrow> mset (reinsert_at i j xs) = mset xs"
proof -
  assume i: "i < length xs"
  let ?rest = "take i xs @ drop (Suc i) xs"
  have "mset (reinsert_at i j xs) = mset (take j ?rest @ drop j ?rest) + {#xs ! i#}"
    unfolding reinsert_at_def Let_def by (simp del: append_take_drop_id take_append drop_append)
  also have "\<dots> = mset ?rest + {#xs ! i#}" by (simp only: append_take_drop_id)
  also have "\<dots> = mset (take i xs @ xs ! i # drop (Suc i) xs)" by simp
  also have "\<dots> = mset xs" using i by (simp only: id_take_nth_drop [symmetric])
  finally show ?thesis .
qed

lemma reinsert_at_nth: "i < length xs \<Longrightarrow> j < length xs \<Longrightarrow> reinsert_at i j xs ! j = xs ! i"
  by (auto simp: reinsert_at_def Let_def nth_append)


lemma split_two:
  assumes "Suc i < length xs"
  obtains as bs where "xs = as @ xs ! i # xs ! Suc i # bs" and "length as = i"
proof
  show "xs = take i xs @ xs ! i # xs ! Suc i # drop (Suc (Suc i)) xs"
    using assms by (simp add: Cons_nth_drop_Suc)
  show "length (take i xs) = i" using assms by simp
qed

lemma reinsert_at_down_append:
  "reinsert_at (length as) (Suc (length as)) (as @ a # b # bs) = as @ b # a # bs"
  by (simp add: reinsert_at_def)

lemma reinsert_at_up_append:
  "reinsert_at (Suc (length as)) (length as) (as @ a # b # bs) = as @ b # a # bs"
  by (simp add: reinsert_at_def nth_append)

lemma swap_append:
  "(as @ a # b # bs)[length as := b, Suc (length as) := a] = as @ b # a # bs"
  by (simp add: list_update_append)

lemma reinsert_at_down:
  assumes "Suc i < length xs"
  shows "reinsert_at i (Suc i) xs = xs[i := xs ! Suc i, Suc i := xs ! i]"
proof -
  obtain as bs where xs: "xs = as @ xs ! i # xs ! Suc i # bs" and i: "length as = i"
    using assms by (rule split_two)
  have "reinsert_at i (Suc i) (as @ xs ! i # xs ! Suc i # bs) = as @ xs ! Suc i # xs ! i # bs"
    using reinsert_at_down_append [of as] i by simp
  moreover have "(as @ xs ! i # xs ! Suc i # bs)[i := xs ! Suc i, Suc i := xs ! i] = as @ xs ! Suc i # xs ! i # bs"
    using swap_append [of as] i by simp
  ultimately show ?thesis using xs by metis
qed

lemma reinsert_at_up:
  assumes "Suc i < length xs"
  shows "reinsert_at (Suc i) i xs = xs[i := xs ! Suc i, Suc i := xs ! i]"
proof -
  obtain as bs where xs: "xs = as @ xs ! i # xs ! Suc i # bs" and i: "length as = i"
    using assms by (rule split_two)
  have "reinsert_at (Suc i) i (as @ xs ! i # xs ! Suc i # bs) = as @ xs ! Suc i # xs ! i # bs"
    using reinsert_at_up_append [of as] i by simp
  moreover have "(as @ xs ! i # xs ! Suc i # bs)[i := xs ! Suc i, Suc i := xs ! i] = as @ xs ! Suc i # xs ! i # bs"
    using swap_append [of as] i by simp
  ultimately show ?thesis using xs by metis
qed

lemma splice_reinsert_up:
  assumes "0 < idx" "idx < int (length xs)"
  shows "splice_reinsert idx (idx - 1) xs =
         xs[nat idx - 1 := xs ! nat idx, nat idx := xs ! (nat idx - 1)]"
proof -
  obtain i where i: "nat idx = Suc i" using assms(1) by (cases "nat idx") auto
  then have idx: "nat (idx - 1) = i" by linarith
  have "Suc i < length xs" using assms i by linarith
  then have "reinsert_at (Suc i) i xs = xs[i := xs ! Suc i, Suc i := xs ! i]"
    by (rule reinsert_at_up)
  moreover have "splice_reinsert idx (idx - 1) xs = reinsert_at (nat idx) (nat (idx - 1)) xs"
    using assms by (intro splice_reinsert_in) auto
  ultimately show ?thesis using i idx by simp
qed

lemma splice_reinsert_down:
  assumes "0 \<le> idx" "idx + 1 < int (length xs)"
  shows "splice_reinsert idx (idx + 1) xs =
         xs[nat idx := xs ! (nat idx + 1), nat idx + 1 := xs ! nat idx]"
proof -
  have n: "nat (idx + 1) = Suc (nat idx)" using assms(1) by linarith
  have "Suc (nat idx) < length xs" using assms by linarith
  then have "reinsert_at (nat idx) (Suc (nat idx)) xs =
             xs[nat idx := xs ! Suc (nat idx), Suc (nat idx) := xs ! nat idx]"
    by (rule reinsert_at_down)
  moreover have "splice_reinsert idx (idx + 1) xs = reinsert_at (nat idx) (nat (idx + 1)) xs"
    using assms by (intro splice_reinsert_in) auto
  ultimately show ?thesis using n by simp
qed

section \<open>Step moves\<close>

text \<open>
  The step moves of the three collections, at a valid index: a swap with the neighbour, or
  the state itself at the boundary; and a move up followed by a move down.
\<close>


lemma moveTitleField_up:
  assumes "0 < idx" "idx < int (length (titleFields s))"
  shows "moveTitleField idx ''up'' s =
         s\<lparr>titleFields := (titleFields s)[nat idx - 1 := titleFields s ! nat idx,
                                          nat idx := titleFields s ! (nat idx - 1)]\<rparr>"
  using assms by (simp add: moveTitleField_def Let_def splice_reinsert_up)

lemma moveTitleField_down:
  assumes "0 \<le> idx" "idx + 1 < int (length (titleFields s))"
  shows "moveTitleField idx ''down'' s =
         s\<lparr>titleFields := (titleFields s)[nat idx := titleFields s ! (nat idx + 1),
                                          nat idx + 1 := titleFields s ! nat idx]\<rparr>"
  using assms by (simp add: moveTitleField_def Let_def splice_reinsert_down)

lemma moveTitleField_first_up: "moveTitleField 0 ''up'' s = s"
  by (simp add: moveTitleField_def)

lemma moveTitleField_last_down:
  "idx = int (length (titleFields s)) - 1 \<Longrightarrow> moveTitleField idx ''down'' s = s"
  by (simp add: moveTitleField_def)

lemma findIndex_bounds: "- 1 \<le> findIndex P xs \<and> findIndex P xs < int (length xs)"
  by (induction xs) (auto simp: Let_def)

lemma findIndex_first:
  "k < length xs \<Longrightarrow> P (xs ! k) \<Longrightarrow> \<forall>j<k. \<not> P (xs ! j) \<Longrightarrow> findIndex P xs = int k"
proof (induction xs arbitrary: k)
  case Nil
  then show ?case by simp
next
  case (Cons x xs)
  show ?case
  proof (cases k)
    case 0
    with Cons.prems show ?thesis by simp
  next
    case (Suc k')
    have nx: "\<not> P x" using Cons.prems(3) Suc by auto
    have "findIndex P xs = int k'"
    proof (rule Cons.IH)
      show "k' < length xs" using Cons.prems(1) Suc by simp
      show "P (xs ! k')" using Cons.prems(2) Suc by simp
      show "\<forall>j<k'. \<not> P (xs ! j)"
      proof (intro allI impI)
        fix j assume "j < k'"
        then have "Suc j < k" using Suc by simp
        then have "\<not> P ((x # xs) ! Suc j)" using Cons.prems(3) by blast
        then show "\<not> P (xs ! j)" by simp
      qed
    qed
    with nx Suc show ?thesis by (simp add: Let_def)
  qed
qed

lemma movePage_removed:
  assumes "0 \<le> findIndex P pgs"
  shows "fst (js_splice (findIndex P pgs) 1 [] pgs) = [pgs ! nat (findIndex P pgs)]"
  using assms findIndex_bounds [of P pgs] by (simp add: js_splice_remove_in)

lemma splice_list_in:
  assumes "0 \<le> idx" "idx < int (length xs)" "0 \<le> newIdx"
  shows "(case js_splice idx 1 [] xs of
            (removedArr, newArr) \<Rightarrow>
              (case removedArr of
                 [] \<Rightarrow> newArr
               | removed # _ \<Rightarrow> snd (js_splice newIdx 0 [removed] newArr))) =
         reinsert_at (nat idx) (nat newIdx) xs"
  using assms by (simp add: js_splice_remove_in js_splice_insert reinsert_at_def)

lemma movePage_swap:
  assumes k: "k < length (pages s)" and P: "pid (pages s ! k) = i"
    and first: "\<forall>j<k. pid (pages s ! j) \<noteq> i"
  shows "0 < k \<Longrightarrow> movePage i ''up'' s =
           s\<lparr>pages := (pages s)[k - 1 := pages s ! k, k := pages s ! (k - 1)]\<rparr>"
    and "Suc k < length (pages s) \<Longrightarrow> movePage i ''down'' s =
           s\<lparr>pages := (pages s)[k := pages s ! Suc k, Suc k := pages s ! k]\<rparr>"
    and "k = 0 \<Longrightarrow> movePage i ''up'' s = s"
    and "Suc k = length (pages s) \<Longrightarrow> movePage i ''down'' s = s"
proof -
  have idx: "findIndex (\<lambda>p. pid p = i) (pages s) = int k"
    using k P first by (intro findIndex_first) auto
  show "movePage i ''up'' s =
          s\<lparr>pages := (pages s)[k - 1 := pages s ! k, k := pages s ! (k - 1)]\<rparr>" if pos: "0 < k"
  proof -
    obtain k' where k': "k = Suc k'" using pos by (cases k) auto
    have "nat (int k - 1) = k'" "nat (1 + int k') = Suc k'" using k' by simp_all
    moreover have "reinsert_at (Suc k') k' (pages s) =
                   (pages s)[k' := pages s ! Suc k', Suc k' := pages s ! k']"
      using k k' by (intro reinsert_at_up) simp
    ultimately show ?thesis
      using k k' by (simp add: movePage_def Let_def idx splice_list_in del: findIndex.simps)
  qed
  show "movePage i ''down'' s =
          s\<lparr>pages := (pages s)[k := pages s ! Suc k, Suc k := pages s ! k]\<rparr>"
    if "Suc k < length (pages s)"
  proof -
    have "nat (int k + 1) = Suc k" by simp
    moreover have "reinsert_at k (Suc k) (pages s) =
                   (pages s)[k := pages s ! Suc k, Suc k := pages s ! k]"
      using that by (rule reinsert_at_down)
    ultimately show ?thesis
      using that by (simp add: movePage_def Let_def idx splice_list_in)
  qed
  show "movePage i ''up'' s = s" if "k = 0"
    using that by (simp add: movePage_def Let_def idx)
  show "movePage i ''down'' s = s" if "Suc k = length (pages s)"
    using that [symmetric] by (simp add: movePage_def Let_def idx)
qed

lemma moveQuestion_page_other: "pid p \<noteq> pageId \<Longrightarrow> moveQuestion_page pageId idx direction p = p"
  by (simp add: moveQuestion_page_def)

lemma moveQuestion_page_up:
  assumes "pid p = pageId" "0 < idx" "idx < int (length (questions p))"
  shows "moveQuestion_page pageId idx ''up'' p =
         p\<lparr>questions := (questions p)[nat idx - 1 := questions p ! nat idx,
                                      nat idx := questions p ! (nat idx - 1)]\<rparr>"
  using assms by (simp add: moveQuestion_page_def Let_def splice_reinsert_up)

lemma moveQuestion_page_down:
  assumes "pid p = pageId" "0 \<le> idx" "idx + 1 < int (length (questions p))"
  shows "moveQuestion_page pageId idx ''down'' p =
         p\<lparr>questions := (questions p)[nat idx := questions p ! (nat idx + 1),
                                      nat idx + 1 := questions p ! nat idx]\<rparr>"
  using assms by (simp add: moveQuestion_page_def Let_def splice_reinsert_down)

lemma moveQuestion_page_first_up: "moveQuestion_page pageId 0 ''up'' p = p"
  by (simp add: moveQuestion_page_def)

lemma moveQuestion_page_last_down:
  "idx = int (length (questions p)) - 1 \<Longrightarrow> moveQuestion_page pageId idx ''down'' p = p"
  by (simp add: moveQuestion_page_def)

lemma moveQuestion_nth:
  "k < length (pages s) \<Longrightarrow>
   pages (moveQuestion pageId idx direction s) ! k =
   moveQuestion_page pageId idx direction (pages s ! k)"
  by (simp add: moveQuestion_def)

lemma swap_back:
  assumes "Suc i < length xs"
  shows "(xs[i := xs ! Suc i, Suc i := xs ! i])[i := xs ! i, Suc i := xs ! Suc i] = xs"
  using assms by (simp add: list_update_swap [of i "Suc i"])

lemma reinsert_at_up_down:
  assumes "Suc i < length xs"
  shows "reinsert_at i (Suc i) (reinsert_at (Suc i) i xs) = xs"
proof -
  let ?ys = "xs[i := xs ! Suc i, Suc i := xs ! i]"
  have len: "Suc i < length ?ys" using assms by simp
  have "reinsert_at (Suc i) i xs = ?ys" using assms by (rule reinsert_at_up)
  moreover have "reinsert_at i (Suc i) ?ys = ?ys[i := ?ys ! Suc i, Suc i := ?ys ! i]"
    using len by (rule reinsert_at_down)
  moreover have "?ys ! Suc i = xs ! i" "?ys ! i = xs ! Suc i" using assms by simp_all
  ultimately show ?thesis using swap_back [OF assms] by simp
qed

lemma splice_reinsert_length:
  "0 \<le> src \<Longrightarrow> src < int (length xs) \<Longrightarrow> 0 \<le> tgt \<Longrightarrow>
   length (splice_reinsert src tgt xs) = length xs"
  by (simp add: splice_reinsert_in reinsert_at_length)

lemma splice_reinsert_up_down:
  assumes "0 < idx" "idx < int (length xs)"
  shows "splice_reinsert (idx - 1) idx (splice_reinsert idx (idx - 1) xs) = xs"
proof -
  obtain i where i: "nat idx = Suc i" using assms(1) by (cases "nat idx") auto
  then have idx: "nat (idx - 1) = i" by linarith
  have lt: "Suc i < length xs" using assms i by linarith
  have up: "splice_reinsert idx (idx - 1) xs = reinsert_at (Suc i) i xs"
    using assms i idx by (simp add: splice_reinsert_in)
  have "length (reinsert_at (Suc i) i xs) = length xs" using lt by (simp add: reinsert_at_length)
  then have "splice_reinsert (idx - 1) idx (reinsert_at (Suc i) i xs) =
        reinsert_at i (Suc i) (reinsert_at (Suc i) i xs)"
    using assms i idx by (simp add: splice_reinsert_in)
  then show ?thesis using up reinsert_at_up_down [OF lt] by simp
qed

lemma moveTitleField_up_down:
  assumes "0 < idx" "idx < int (length (titleFields s))"
  shows "moveTitleField (idx - 1) ''down'' (moveTitleField idx ''up'' s) = s"
proof -
  have "length (splice_reinsert idx (idx - 1) (titleFields s)) = length (titleFields s)"
    using assms by (intro splice_reinsert_length) auto
  then show ?thesis
    using assms by (simp add: moveTitleField_def Let_def splice_reinsert_up_down)
qed

lemma moveQuestion_page_up_down:
  assumes "pid p = pageId \<longrightarrow> 0 < idx \<and> idx < int (length (questions p))"
  shows "moveQuestion_page pageId (idx - 1) ''down'' (moveQuestion_page pageId idx ''up'' p) = p"
proof (cases "pid p = pageId")
  case False
  then show ?thesis by (simp add: moveQuestion_page_other)
next
  case True
  with assms have b: "0 < idx" "idx < int (length (questions p))" by auto
  then have "length (splice_reinsert idx (idx - 1) (questions p)) = length (questions p)"
    by (intro splice_reinsert_length) auto
  with True b show ?thesis
    by (simp add: moveQuestion_page_def Let_def splice_reinsert_up_down)
qed

lemma moveQuestion_up_down:
  assumes "\<forall>p\<in>set (pages s). pid p = pageId \<longrightarrow> 0 < idx \<and> idx < int (length (questions p))"
  shows "moveQuestion pageId (idx - 1) ''down'' (moveQuestion pageId idx ''up'' s) = s"
proof -
  have "map (moveQuestion_page pageId (idx - 1) ''down'')
          (map (moveQuestion_page pageId idx ''up'') (pages s)) = pages s"
    using assms by (simp add: map_idI moveQuestion_page_up_down)
  then show ?thesis by (simp add: moveQuestion_def)
qed

lemma moveQuestion_first_up: "moveQuestion pageId 0 ''up'' s = s"
  by (simp add: moveQuestion_def moveQuestion_page_first_up map_idI)

lemma movePage_up_down:
  assumes k: "k < length (pages s)" and P: "pid (pages s ! k) = i"
    and first: "\<forall>j<k. pid (pages s ! j) \<noteq> i" and pos: "0 < k"
  shows "movePage i ''down'' (movePage i ''up'' s) = s"
proof -
  obtain k' where k': "k = Suc k'" using pos by (cases k) auto
  let ?s = "s\<lparr>pages := (pages s)[k' := pages s ! Suc k', Suc k' := pages s ! k']\<rparr>"
  have up: "movePage i ''up'' s = ?s"
    using movePage_swap(1) [OF k P first pos] k' by simp
  have "movePage i ''down'' ?s =
        ?s\<lparr>pages := (pages ?s)[k' := pages ?s ! Suc k', Suc k' := pages ?s ! k']\<rparr>"
  proof (rule movePage_swap(2))
    show "k' < length (pages ?s)" using k k' by simp
    show "pid (pages ?s ! k') = i" using k k' P by simp
    show "\<forall>j<k'. pid (pages ?s ! j) \<noteq> i" using first k' k by simp
    show "Suc k' < length (pages ?s)" using k k' by simp
  qed
  moreover have "(pages ?s)[k' := pages ?s ! Suc k', Suc k' := pages ?s ! k'] = pages s"
    using k k' swap_back [of k' "pages s"] by simp
  ultimately show ?thesis using up by simp
qed

section \<open>The concrete states are reachable\<close>

text \<open>Each concrete state is the result of a run of events from the initial state.\<close>


lemma two_pages_reachable:
  "run [AddQuestion (steady_clock 1700000000000) 1, AddPage 1700000005000 1700000005000,
        AddQuestion (steady_clock 1700000009000) 1700000005000] initial = Inr two_pages"
  by (simp add: initial_def two_pages_def addQuestion_def addQuestion_page_def addPage_def
      steady_clock_def)

lemma stale_title_drag_reachable:
  "run [TitleFieldDragStart 3, RemoveTitleField 1, QuestionDragStart 1 0] initial =
   Inr stale_title_drag"
  by (simp add: initial_def stale_title_drag_def handleTitleFieldDragStart_def
      removeTitleField_def handleQuestionDragStart_def)

lemma stale_question_drag_reachable:
  "run [QuestionDragStart 1 1, RemoveQuestion 1 1700000000000, TitleFieldDragStart 0] two_pages =
   Inr stale_question_drag"
  by (simp add: initial_def two_pages_def stale_question_drag_def handleTitleFieldDragStart_def
      removeQuestion_def removeQuestion_page_def handleQuestionDragStart_def)

lemma twin_pages_reachable:
  "run [AddPage 1700000000000 1700000000000, AddPage 1700000000000 1700000000000] initial =
   Inr twin_pages"
  by (simp add: initial_def twin_pages_def addPage_def)

lemma twin_questions_reachable:
  "run [AddQuestion (steady_clock 1700000000000) 1,
        AddQuestion (steady_clock 1700000000000) 1] initial =
   Inr twin_questions"
  by (simp add: initial_def twin_questions_def addQuestion_def addQuestion_page_def
      steady_clock_def)

section \<open>Step moves: claims C3 and C4\<close>

text \<open>
  Claim C3, as the code has it. The claim says that the step move swaps the element at every
  valid index of the pages with its neighbour and leaves the other elements where they are.
  \<open>movePage\<close> receives the identifier of the page, not its index, and moves the first page
  that has this identifier. In \<open>twin_pages\<close> the pages at the indices 1 and 2 have the same
  identifier: the move up of the page at index 2 moves the page at index 1 to index 0, where
  the swap of the indices 2 and 1 would leave the page at index 0 in its place.
\<close>

theorem C3_page_move_counterexample:
  "map pid (pages twin_pages) = [1, 1700000000000, 1700000000000] \<and>
   pid (pages twin_pages ! 2) = 1700000000000 \<and>
   map pid (pages (movePage 1700000000000 ''up'' twin_pages)) =
     [1700000000000, 1, 1700000000000] \<and>
   map pid ((pages twin_pages)[1 := pages twin_pages ! 2, 2 := pages twin_pages ! 1]) =
     [1, 1700000000000, 1700000000000] \<and>
   pages (movePage 1700000000000 ''up'' twin_pages) ! 0 \<noteq> pages twin_pages ! 0"
  by (simp add: initial_def twin_pages_def movePage_def js_splice_def Let_def)

text \<open>
  Claim C3, amended. For the title fields and the questions of a page, and for every valid
  index, the step move up or down swaps the element with its neighbour in that direction,
  returns the collection unchanged at the boundary (first index up, last index down), and
  leaves every other element at its position. \<open>moveTitleField\<close> and \<open>moveQuestion\<close> take
  the index. \<open>movePage\<close> takes the identifier of the page and does the same to the first
  page that has it, which stands at index \<open>m\<close> below; when no two pages have the same
  identifier it does so to the page at every valid index \<open>n\<close> (last conjunct).
\<close>

theorem C3_step_move:
  "(0 \<le> idx \<and> idx < int (length (titleFields s)) \<longrightarrow>
      moveTitleField idx ''up'' s =
        (if idx = 0 then s
         else s\<lparr>titleFields := (titleFields s)[nat idx - 1 := titleFields s ! nat idx,
                                               nat idx := titleFields s ! (nat idx - 1)]\<rparr>) \<and>
      moveTitleField idx ''down'' s =
        (if idx = int (length (titleFields s)) - 1 then s
         else s\<lparr>titleFields := (titleFields s)[nat idx := titleFields s ! (nat idx + 1),
                                               nat idx + 1 := titleFields s ! nat idx]\<rparr>)) \<and>
   (k < length (pages t) \<and> pid (pages t ! k) = pageId \<and>
    0 \<le> qidx \<and> qidx < int (length (questions (pages t ! k))) \<longrightarrow>
      length (pages (moveQuestion pageId qidx direction t)) = length (pages t) \<and>
      pages (moveQuestion pageId qidx ''up'' t) ! k =
        (if qidx = 0 then pages t ! k
         else (pages t ! k)\<lparr>questions :=
                (questions (pages t ! k))[nat qidx - 1 := questions (pages t ! k) ! nat qidx,
                                          nat qidx := questions (pages t ! k) ! (nat qidx - 1)]\<rparr>) \<and>
      pages (moveQuestion pageId qidx ''down'' t) ! k =
        (if qidx = int (length (questions (pages t ! k))) - 1 then pages t ! k
         else (pages t ! k)\<lparr>questions :=
                (questions (pages t ! k))[nat qidx := questions (pages t ! k) ! (nat qidx + 1),
                                          nat qidx + 1 := questions (pages t ! k) ! nat qidx]\<rparr>)) \<and>
   (m < length (pages u) \<and> pid (pages u ! m) = i \<and> (\<forall>j<m. pid (pages u ! j) \<noteq> i) \<longrightarrow>
      movePage i ''up'' u =
        (if m = 0 then u
         else u\<lparr>pages := (pages u)[m - 1 := pages u ! m, m := pages u ! (m - 1)]\<rparr>) \<and>
      movePage i ''down'' u =
        (if Suc m = length (pages u) then u
         else u\<lparr>pages := (pages u)[m := pages u ! Suc m, Suc m := pages u ! m]\<rparr>)) \<and>
   (distinct (map pid (pages w)) \<and> n < length (pages w) \<longrightarrow>
      movePage (pid (pages w ! n)) ''up'' w =
        (if n = 0 then w
         else w\<lparr>pages := (pages w)[n - 1 := pages w ! n, n := pages w ! (n - 1)]\<rparr>) \<and>
      movePage (pid (pages w ! n)) ''down'' w =
        (if Suc n = length (pages w) then w
         else w\<lparr>pages := (pages w)[n := pages w ! Suc n, Suc n := pages w ! n]\<rparr>))"
proof (intro conjI impI)
  assume a: "0 \<le> idx \<and> idx < int (length (titleFields s))"
  show "moveTitleField idx ''up'' s =
        (if idx = 0 then s
         else s\<lparr>titleFields := (titleFields s)[nat idx - 1 := titleFields s ! nat idx,
                                               nat idx := titleFields s ! (nat idx - 1)]\<rparr>)"
    using a moveTitleField_up [of idx s] moveTitleField_first_up [of s] by auto
  show "moveTitleField idx ''down'' s =
        (if idx = int (length (titleFields s)) - 1 then s
         else s\<lparr>titleFields := (titleFields s)[nat idx := titleFields s ! (nat idx + 1),
                                               nat idx + 1 := titleFields s ! nat idx]\<rparr>)"
    using a moveTitleField_down [of idx s] moveTitleField_last_down [of idx s] by auto
next
  assume a: "k < length (pages t) \<and> pid (pages t ! k) = pageId \<and>
    0 \<le> qidx \<and> qidx < int (length (questions (pages t ! k)))"
  show "length (pages (moveQuestion pageId qidx direction t)) = length (pages t)"
    by (simp add: moveQuestion_def)
  show "pages (moveQuestion pageId qidx ''up'' t) ! k =
        (if qidx = 0 then pages t ! k
         else (pages t ! k)\<lparr>questions :=
                (questions (pages t ! k))[nat qidx - 1 := questions (pages t ! k) ! nat qidx,
                                          nat qidx := questions (pages t ! k) ! (nat qidx - 1)]\<rparr>)"
    using a moveQuestion_page_up [of "pages t ! k" pageId qidx]
      moveQuestion_page_first_up [of pageId "pages t ! k"]
    by (auto simp: moveQuestion_nth)
  show "pages (moveQuestion pageId qidx ''down'' t) ! k =
        (if qidx = int (length (questions (pages t ! k))) - 1 then pages t ! k
         else (pages t ! k)\<lparr>questions :=
                (questions (pages t ! k))[nat qidx := questions (pages t ! k) ! (nat qidx + 1),
                                          nat qidx + 1 := questions (pages t ! k) ! nat qidx]\<rparr>)"
    using a moveQuestion_page_down [of "pages t ! k" pageId qidx]
      moveQuestion_page_last_down [of qidx "pages t ! k" pageId]
    by (auto simp: moveQuestion_nth)
next
  assume a: "m < length (pages u) \<and> pid (pages u ! m) = i \<and> (\<forall>j<m. pid (pages u ! j) \<noteq> i)"
  then have m: "m < length (pages u)" and P: "pid (pages u ! m) = i"
    and first: "\<forall>j<m. pid (pages u ! j) \<noteq> i" by auto
  show "movePage i ''up'' u =
        (if m = 0 then u
         else u\<lparr>pages := (pages u)[m - 1 := pages u ! m, m := pages u ! (m - 1)]\<rparr>)"
    using movePage_swap(1) [OF m P first] movePage_swap(3) [OF m P first] by auto
  show "movePage i ''down'' u =
        (if Suc m = length (pages u) then u
         else u\<lparr>pages := (pages u)[m := pages u ! Suc m, Suc m := pages u ! m]\<rparr>)"
    using movePage_swap(2) [OF m P first] movePage_swap(4) [OF m P first] m by auto
next
  assume a: "distinct (map pid (pages w)) \<and> n < length (pages w)"
  then have n: "n < length (pages w)" by simp
  have first: "\<forall>j<n. pid (pages w ! j) \<noteq> pid (pages w ! n)"
  proof (intro allI impI)
    fix j assume j: "j < n"
    with a show "pid (pages w ! j) \<noteq> pid (pages w ! n)"
      by (auto simp: distinct_conv_nth)
  qed
  show "movePage (pid (pages w ! n)) ''up'' w =
        (if n = 0 then w
         else w\<lparr>pages := (pages w)[n - 1 := pages w ! n, n := pages w ! (n - 1)]\<rparr>)"
    using movePage_swap(1) [OF n refl first] movePage_swap(3) [OF n refl first] by auto
  show "movePage (pid (pages w ! n)) ''down'' w =
        (if Suc n = length (pages w) then w
         else w\<lparr>pages := (pages w)[n := pages w ! Suc n, Suc n := pages w ! n]\<rparr>)"
    using movePage_swap(2) [OF n refl first] movePage_swap(4) [OF n refl first] n by auto
qed

theorem C3_step_move_witness:
  "moveTitleField 3 ''down'' initial = initial \<and>
   map (map_option label) (titleFields (moveTitleField 0 ''down'' initial)) =
     [Some ''Conducted on'', Some ''Site conducte'', Some ''Prepared by'', Some ''Location''] \<and>
   moveTitleField 0 ''up'' initial = initial \<and>
   map (map_option qid) (questions (pages (moveQuestion 1700000005000 1 ''up'' two_pages) ! 1)) =
     [Some 1700000009000, Some 1700000005001] \<and>
   pages (moveQuestion 1700000005000 1 ''down'' two_pages) ! 1 = pages two_pages ! 1 \<and>
   map pid (pages (movePage 1700000005000 ''up'' two_pages)) = [1700000005000, 1] \<and>
   movePage 1700000005000 ''down'' two_pages = two_pages \<and>
   map pid (pages (movePage 1 ''down'' two_pages)) = [1700000005000, 1] \<and>
   movePage 1 ''up'' two_pages = two_pages"
  using C3_step_move [where idx = 3 and s = initial and t = two_pages and k = 1
      and pageId = 1700000005000 and qidx = 1 and u = two_pages and m = 1 and i = 1700000005000
      and w = two_pages and n = 0]
    C3_step_move [where idx = 0 and s = initial and t = two_pages and k = 1
      and pageId = 1700000005000 and qidx = 1 and u = two_pages and m = 1 and i = 1700000005000
      and w = two_pages and n = 0]
  by (simp add: initial_def two_pages_def)

text \<open>
  Claim C4. For a valid index at least 1, moving the element up and then moving the element at
  the index before it down restores the collection; at index 0 the move up changes nothing.
  For the pages both moves name the page by its identifier.
\<close>

theorem C4_step_move_inverse:
  "(0 < idx \<and> idx < int (length (titleFields s)) \<longrightarrow>
      moveTitleField (idx - 1) ''down'' (moveTitleField idx ''up'' s) = s) \<and>
   moveTitleField 0 ''up'' s = s \<and>
   (k < length (pages t) \<and> pid (pages t ! k) = pageId \<and>
    0 < qidx \<and> qidx < int (length (questions (pages t ! k))) \<longrightarrow>
      pages (moveQuestion pageId (qidx - 1) ''down'' (moveQuestion pageId qidx ''up'' t)) ! k =
      pages t ! k) \<and>
   ((\<forall>p\<in>set (pages t). pid p = pageId \<longrightarrow> 0 < qidx \<and> qidx < int (length (questions p))) \<longrightarrow>
      moveQuestion pageId (qidx - 1) ''down'' (moveQuestion pageId qidx ''up'' t) = t) \<and>
   moveQuestion pageId 0 ''up'' t = t \<and>
   (m < length (pages u) \<and> pid (pages u ! m) = i \<and> (\<forall>j<m. pid (pages u ! j) \<noteq> i) \<longrightarrow>
      (0 < m \<longrightarrow> movePage i ''down'' (movePage i ''up'' u) = u) \<and>
      (m = 0 \<longrightarrow> movePage i ''up'' u = u))"
proof (intro conjI impI)
  assume "0 < idx \<and> idx < int (length (titleFields s))"
  then show "moveTitleField (idx - 1) ''down'' (moveTitleField idx ''up'' s) = s"
    by (simp add: moveTitleField_up_down)
next
  show "moveTitleField 0 ''up'' s = s" by (rule moveTitleField_first_up)
next
  assume a: "k < length (pages t) \<and> pid (pages t ! k) = pageId \<and>
    0 < qidx \<and> qidx < int (length (questions (pages t ! k)))"
  then have "moveQuestion_page pageId (qidx - 1) ''down''
               (moveQuestion_page pageId qidx ''up'' (pages t ! k)) = pages t ! k"
    by (intro moveQuestion_page_up_down) simp
  then show "pages (moveQuestion pageId (qidx - 1) ''down''
                 (moveQuestion pageId qidx ''up'' t)) ! k = pages t ! k"
    using a by (simp add: moveQuestion_def)
next
  assume "\<forall>p\<in>set (pages t). pid p = pageId \<longrightarrow> 0 < qidx \<and> qidx < int (length (questions p))"
  then show "moveQuestion pageId (qidx - 1) ''down'' (moveQuestion pageId qidx ''up'' t) = t"
    by (rule moveQuestion_up_down)
next
  show "moveQuestion pageId 0 ''up'' t = t" by (rule moveQuestion_first_up)
next
  assume a: "m < length (pages u) \<and> pid (pages u ! m) = i \<and> (\<forall>j<m. pid (pages u ! j) \<noteq> i)"
    and "0 < m"
  then show "movePage i ''down'' (movePage i ''up'' u) = u"
    by (intro movePage_up_down [of m]) auto
next
  assume a: "m < length (pages u) \<and> pid (pages u ! m) = i \<and> (\<forall>j<m. pid (pages u ! j) \<noteq> i)"
    and "m = 0"
  then show "movePage i ''up'' u = u"
    by (intro movePage_swap(3) [of m]) auto
qed

theorem C4_step_move_inverse_witness:
  "moveTitleField 1 ''up'' initial \<noteq> initial \<and>
   moveTitleField (2 - 1) ''down'' (moveTitleField 2 ''up'' initial) = initial \<and>
   moveQuestion 1 (1 - 1) ''down'' (moveQuestion 1 1 ''up'' two_pages) = two_pages \<and>
   pages (moveQuestion 1 (1 - 1) ''down'' (moveQuestion 1 1 ''up'' two_pages)) ! 0 =
     pages two_pages ! 0 \<and>
   movePage 1700000005000 ''down'' (movePage 1700000005000 ''up'' two_pages) = two_pages \<and>
   movePage 1 ''up'' two_pages = two_pages"
  using C4_step_move_inverse [where idx = 2 and s = initial and t = two_pages and k = 0
      and pageId = 1 and qidx = 1 and u = two_pages and m = 1 and i = 1700000005000]
    C4_step_move_inverse [where u = two_pages and m = 0 and i = 1]
    moveTitleField_up [of 1 initial]
  by (simp add: initial_def two_pages_def)

section \<open>Drag and drop: claims C1, C2 and C8\<close>

lemma handleTitleFieldDrop_cancel:
  "draggedFieldIdx s = None \<or> draggedFieldIdx s = Some tgt \<Longrightarrow> handleTitleFieldDrop tgt s = s"
  by (auto simp: handleTitleFieldDrop_def)

lemma handleTitleFieldDrop_in:
  assumes "draggedFieldIdx s = Some src" "src \<noteq> tgt"
    and "0 \<le> src" "src < int (length (titleFields s))" "0 \<le> tgt"
  shows "handleTitleFieldDrop tgt s =
         s\<lparr>titleFields := reinsert_at (nat src) (nat tgt) (titleFields s),
           draggedFieldIdx := None\<rparr>"
  using assms by (simp add: handleTitleFieldDrop_def splice_reinsert_in)

lemma handleQuestionDrop_cancel:
  "dragPageId (draggedQuestion s) = None \<or> dragIdx (draggedQuestion s) = None \<Longrightarrow>
   handleQuestionDrop pageId tgt s = s"
  by (auto simp: handleQuestionDrop_def split: option.splits)

lemma handleQuestionDrop_active:
  assumes "dragPageId (draggedQuestion s) = Some dp" "dragIdx (draggedQuestion s) = Some src"
  shows "handleQuestionDrop pageId tgt s =
         s\<lparr>pages := map (handleQuestionDrop_page src pageId tgt) (pages s),
           draggedQuestion := \<lparr> dragPageId = None, dragIdx = None \<rparr>\<rparr>"
  using assms by (simp add: handleQuestionDrop_def)

lemma handleQuestionDrop_page_in:
  assumes "pid p = pageId" "0 \<le> src" "src < int (length (questions p))" "0 \<le> tgt"
  shows "handleQuestionDrop_page src pageId tgt p =
         p\<lparr>questions := reinsert_at (nat src) (nat tgt) (questions p)\<rparr>"
  using assms by (simp add: handleQuestionDrop_page_def splice_reinsert_in)

lemma handleQuestionDrop_page_other:
  "pid p \<noteq> pageId \<Longrightarrow> handleQuestionDrop_page src pageId tgt p = p"
  by (simp add: handleQuestionDrop_page_def)

lemma mset_ids: "mset ys = mset xs \<Longrightarrow> mset (map f ys) = mset (map f xs)"
  by (metis mset_map)

text \<open>
  Claim C1, as the code has it. The claim says that a drop whose captured source index is
  stale, for instance out of bounds, cancels the reorder and leaves the collection unchanged.
  The drop handlers hold no such check. In \<open>stale_title_drag\<close> the captured index 3 is
  beyond the three title fields that are left, and the drop on the first row puts
  \<open>undefined\<close> in front of them; in \<open>stale_question_drag\<close> the captured index 1 is beyond
  the one question that is left, and the drop does the same to the questions of the page.
\<close>

theorem C1_stale_drop_counterexample:
  "draggedFieldIdx stale_title_drag = Some 3 \<and>
   int (length (titleFields stale_title_drag)) \<le> 3 \<and>
   titleFields (handleTitleFieldDrop 0 stale_title_drag) = None # titleFields stale_title_drag \<and>
   titleFields (handleTitleFieldDrop 0 stale_title_drag) \<noteq> titleFields stale_title_drag \<and>
   dragIdx (draggedQuestion stale_question_drag) = Some 1 \<and>
   int (length (questions (pages stale_question_drag ! 0))) \<le> 1 \<and>
   questions (pages (handleQuestionDrop 1 0 stale_question_drag) ! 0) =
     None # questions (pages stale_question_drag ! 0) \<and>
   questions (pages (handleQuestionDrop 1 0 stale_question_drag) ! 0) \<noteq>
     questions (pages stale_question_drag ! 0)"
  by (simp add: initial_def two_pages_def stale_title_drag_def stale_question_drag_def
      handleTitleFieldDrop_def handleQuestionDrop_def handleQuestionDrop_page_def
      splice_reinsert_out)

text \<open>
  Claim C1, amended. A drop returns the state unchanged when no drag is in progress (the
  captured index is absent; for the questions, the captured page or index is absent) and, for
  the title fields, when the captured index is the target index. In every other case the drop
  clears the drag state and runs the splice idiom with the captured index as it was captured,
  without comparing it with the collection: when it is in range, the element that stands at
  that index at drop time moves to the target index.
\<close>

theorem C1_drop_without_validation:
  "(draggedFieldIdx s = None \<or> draggedFieldIdx s = Some tgt \<longrightarrow>
      handleTitleFieldDrop tgt s = s) \<and>
   (draggedFieldIdx s = Some src \<and> src \<noteq> tgt \<longrightarrow>
      draggedFieldIdx (handleTitleFieldDrop tgt s) = None \<and>
      titleFields (handleTitleFieldDrop tgt s) = splice_reinsert src tgt (titleFields s)) \<and>
   (draggedFieldIdx s = Some src \<and> src \<noteq> tgt \<and>
    0 \<le> src \<and> src < int (length (titleFields s)) \<and>
    0 \<le> tgt \<and> tgt < int (length (titleFields s)) \<longrightarrow>
      titleFields (handleTitleFieldDrop tgt s) ! nat tgt = titleFields s ! nat src) \<and>
   (dragPageId (draggedQuestion t) = None \<or> dragIdx (draggedQuestion t) = None \<longrightarrow>
      handleQuestionDrop pageId qtgt t = t) \<and>
   (dragPageId (draggedQuestion t) = Some dp \<and> dragIdx (draggedQuestion t) = Some qsrc \<longrightarrow>
      draggedQuestion (handleQuestionDrop pageId qtgt t) =
        \<lparr> dragPageId = None, dragIdx = None \<rparr> \<and>
      (k < length (pages t) \<and> pid (pages t ! k) = pageId \<longrightarrow>
         questions (pages (handleQuestionDrop pageId qtgt t) ! k) =
           splice_reinsert qsrc qtgt (questions (pages t ! k))) \<and>
      (k < length (pages t) \<and> pid (pages t ! k) = pageId \<and>
       0 \<le> qsrc \<and> qsrc < int (length (questions (pages t ! k))) \<and>
       0 \<le> qtgt \<and> qtgt < int (length (questions (pages t ! k))) \<longrightarrow>
         questions (pages (handleQuestionDrop pageId qtgt t) ! k) ! nat qtgt =
           questions (pages t ! k) ! nat qsrc))"
proof (intro conjI impI)
  assume "draggedFieldIdx s = None \<or> draggedFieldIdx s = Some tgt"
  then show "handleTitleFieldDrop tgt s = s" by (rule handleTitleFieldDrop_cancel)
next
  assume a: "draggedFieldIdx s = Some src \<and> src \<noteq> tgt"
  then show "draggedFieldIdx (handleTitleFieldDrop tgt s) = None"
    by (simp add: handleTitleFieldDrop_def)
  from a show "titleFields (handleTitleFieldDrop tgt s) = splice_reinsert src tgt (titleFields s)"
    by (simp add: handleTitleFieldDrop_def)
next
  assume a: "draggedFieldIdx s = Some src \<and> src \<noteq> tgt \<and>
    0 \<le> src \<and> src < int (length (titleFields s)) \<and>
    0 \<le> tgt \<and> tgt < int (length (titleFields s))"
  then have "titleFields (handleTitleFieldDrop tgt s) =
      reinsert_at (nat src) (nat tgt) (titleFields s)"
    by (simp add: handleTitleFieldDrop_in)
  moreover from a have "nat src < length (titleFields s)" "nat tgt < length (titleFields s)"
    by auto
  ultimately show "titleFields (handleTitleFieldDrop tgt s) ! nat tgt = titleFields s ! nat src"
    by (simp add: reinsert_at_nth)
next
  assume "dragPageId (draggedQuestion t) = None \<or> dragIdx (draggedQuestion t) = None"
  then show "handleQuestionDrop pageId qtgt t = t" by (rule handleQuestionDrop_cancel)
next
  assume a: "dragPageId (draggedQuestion t) = Some dp \<and> dragIdx (draggedQuestion t) = Some qsrc"
  then show "draggedQuestion (handleQuestionDrop pageId qtgt t) =
      \<lparr> dragPageId = None, dragIdx = None \<rparr>"
    by (simp add: handleQuestionDrop_active)
  show "questions (pages (handleQuestionDrop pageId qtgt t) ! k) =
      splice_reinsert qsrc qtgt (questions (pages t ! k))"
    if "k < length (pages t) \<and> pid (pages t ! k) = pageId"
    using a that by (simp add: handleQuestionDrop_active handleQuestionDrop_page_def)
  show "questions (pages (handleQuestionDrop pageId qtgt t) ! k) ! nat qtgt =
      questions (pages t ! k) ! nat qsrc"
    if b: "k < length (pages t) \<and> pid (pages t ! k) = pageId \<and>
       0 \<le> qsrc \<and> qsrc < int (length (questions (pages t ! k))) \<and>
       0 \<le> qtgt \<and> qtgt < int (length (questions (pages t ! k)))"
  proof -
    have "questions (pages (handleQuestionDrop pageId qtgt t) ! k) =
        reinsert_at (nat qsrc) (nat qtgt) (questions (pages t ! k))"
      using a b by (simp add: handleQuestionDrop_active handleQuestionDrop_page_in)
    moreover from b have "nat qsrc < length (questions (pages t ! k))"
      "nat qtgt < length (questions (pages t ! k))" by auto
    ultimately show ?thesis by (simp add: reinsert_at_nth)
  qed
qed

theorem C1_drop_without_validation_witness:
  "handleTitleFieldDrop 0 initial = initial \<and>
   draggedFieldIdx (handleTitleFieldDrop 1 (handleTitleFieldDragStart 0 initial)) = None \<and>
   map (map_option fid) (titleFields (handleTitleFieldDrop 1 (handleTitleFieldDragStart 0 initial))) =
     [Some 2, Some 1, Some 3, Some 4] \<and>
   handleQuestionDrop 1 0 two_pages = two_pages \<and>
   map (map_option qid)
     (questions (pages (handleQuestionDrop 1 1 (handleQuestionDragStart 1 0 two_pages)) ! 0)) =
     [Some 1700000000000, Some 1]"
  using C1_drop_without_validation [where s = initial and tgt = 0 and t = two_pages
      and pageId = 1 and qtgt = 0]
    C1_drop_without_validation [where s = "handleTitleFieldDragStart 0 initial" and tgt = 1
      and src = 0 and t = "handleQuestionDragStart 1 0 two_pages" and pageId = 1 and qtgt = 1
      and qsrc = 0 and k = 0 and dp = 1]
  by (simp add: initial_def two_pages_def handleTitleFieldDragStart_def
      handleQuestionDragStart_def splice_reinsert_def js_splice_def first_elem_def)



text \<open>
  Claim C8, evaluated where the code departs from it. The drag starts on the second question
  of the page with identifier 1; the drop is delivered on the first row of the page with
  identifier 1700000005000. \<open>handleQuestionDrop\<close> tests the captured page identifier
  against \<open>null\<close> only, so the captured index 1 is applied to the page of the drop: its two
  questions change places, and the page of the drag is as it was.
\<close>

theorem C8_cross_page_drop:
  "dragPageId (draggedQuestion (handleQuestionDragStart 1 1 two_pages)) = Some 1 \<and>
   map (map_option qid) (questions (pages two_pages ! 1)) =
     [Some 1700000005001, Some 1700000009000] \<and>
   map pid (pages two_pages) = [1, 1700000005000] \<and>
   map (map_option qid)
     (questions (pages (handleQuestionDrop 1700000005000 0
                          (handleQuestionDragStart 1 1 two_pages)) ! 1)) =
     [Some 1700000009000, Some 1700000005001] \<and>
   pages (handleQuestionDrop 1700000005000 0 (handleQuestionDragStart 1 1 two_pages)) ! 0 =
     pages two_pages ! 0"
  by (simp add: initial_def two_pages_def handleQuestionDragStart_def handleQuestionDrop_def
      handleQuestionDrop_page_def splice_reinsert_def js_splice_def first_elem_def)

section \<open>Removal: claims C6 and C7\<close>

lemma js_filter_total:
  "\<forall>x\<in>set xs. p x = Inr (P x) \<Longrightarrow> js_filter p xs = Inr (filter P xs)"
  by (induction xs) auto

lemma js_map_total:
  "\<forall>x\<in>set xs. f x = Inr (g x) \<Longrightarrow> js_map f xs = Inr (map g xs)"
  by (induction xs) auto

lemma js_map_Inr:
  "js_map f xs = Inr ys \<Longrightarrow> list_all2 (\<lambda>x y. f x = Inr y) xs ys"
  by (induction xs arbitrary: ys) (auto split: sum.splits)

lemma js_filter_Inr:
  "js_filter p xs = Inr ys \<Longrightarrow> ys = filter (\<lambda>x. p x = Inr True) xs \<and> (\<forall>x\<in>set xs. \<exists>b. p x = Inr b)"
  by (induction xs arbitrary: ys) (auto split: sum.splits if_splits)

lemma read_fid:
  assumes "None \<notin> set flds"
  shows "\<forall>f\<in>set flds. (case f of None \<Rightarrow> Inl TypeError | Some f' \<Rightarrow> Inr (fid f' \<noteq> i)) =
                        Inr (map_option fid f \<noteq> Some i)"
proof
  fix f assume "f \<in> set flds"
  with assms obtain f' where "f = Some f'" by (cases f) auto
  then show "(case f of None \<Rightarrow> Inl TypeError | Some f' \<Rightarrow> Inr (fid f' \<noteq> i)) =
             Inr (map_option fid f \<noteq> Some i)" by simp
qed

lemma read_qid:
  assumes "None \<notin> set qs"
  shows "\<forall>q\<in>set qs. (case q of None \<Rightarrow> Inl TypeError | Some q' \<Rightarrow> Inr (qid q' \<noteq> i)) =
                      Inr (map_option qid q \<noteq> Some i)"
proof
  fix q assume "q \<in> set qs"
  with assms obtain q' where "q = Some q'" by (cases q) auto
  then show "(case q of None \<Rightarrow> Inl TypeError | Some q' \<Rightarrow> Inr (qid q' \<noteq> i)) =
             Inr (map_option qid q \<noteq> Some i)" by simp
qed

lemma removeTitleField_defined:
  assumes "None \<notin> set (titleFields s)"
  shows "removeTitleField i s =
         Inr (s\<lparr>titleFields := filter (\<lambda>f. map_option fid f \<noteq> Some i) (titleFields s)\<rparr>)"
  using js_filter_total [OF read_fid [OF assms, of i]] by (simp add: removeTitleField_def)

lemma removePage_single: "length (pages s) = 1 \<Longrightarrow> removePage i s = s"
  by (simp add: removePage_def)

lemma removePage_several:
  "1 < length (pages s) \<Longrightarrow> removePage i s = s\<lparr>pages := filter (\<lambda>p. pid p \<noteq> i) (pages s)\<rparr>"
  by (simp add: removePage_def)

lemma removeQuestion_page_single:
  "length (questions p) = 1 \<Longrightarrow> removeQuestion_page pageId i p = Inr p"
  by (simp add: removeQuestion_page_def)

lemma removeQuestion_page_other:
  "pid p \<noteq> pageId \<Longrightarrow> removeQuestion_page pageId i p = Inr p"
  by (simp add: removeQuestion_page_def)

lemma removeQuestion_page_defined:
  assumes "None \<notin> set (questions p)"
  shows "removeQuestion_page pageId i p =
         Inr (if pid p = pageId \<and> 1 < length (questions p)
              then p\<lparr>questions := filter (\<lambda>q. map_option qid q \<noteq> Some i) (questions p)\<rparr>
              else p)"
  using js_filter_total [OF read_qid [OF assms, of i]] by (simp add: removeQuestion_page_def)

lemma removeQuestion_defined:
  assumes "\<forall>p\<in>set (pages s). None \<notin> set (questions p)"
  shows "removeQuestion pageId i s =
         Inr (s\<lparr>pages :=
                map (\<lambda>p. if pid p = pageId \<and> 1 < length (questions p)
                          then p\<lparr>questions :=
                                 filter (\<lambda>q. map_option qid q \<noteq> Some i) (questions p)\<rparr>
                          else p)
                    (pages s)\<rparr>)"
proof -
  have "js_map (removeQuestion_page pageId i) (pages s) =
        Inr (map (\<lambda>p. if pid p = pageId \<and> 1 < length (questions p)
                       then p\<lparr>questions :=
                              filter (\<lambda>q. map_option qid q \<noteq> Some i) (questions p)\<rparr>
                       else p)
                 (pages s))"
    using assms by (intro js_map_total) (simp add: removeQuestion_page_defined)
  then show ?thesis by (simp add: removeQuestion_def)
qed

lemma removeQuestion_single:
  assumes "\<forall>p\<in>set (pages s). pid p = pageId \<longrightarrow> length (questions p) = 1"
  shows "removeQuestion pageId i s = Inr s"
proof -
  have "js_map (removeQuestion_page pageId i) (pages s) = Inr (map (\<lambda>p. p) (pages s))"
    using assms by (intro js_map_total) (auto simp: removeQuestion_page_def)
  then show ?thesis by (simp add: removeQuestion_def)
qed

lemma filter_one_out:
  "length (filter P xs) = 1 \<Longrightarrow> Suc (length (filter (\<lambda>x. \<not> P x) xs)) = length xs"
  using sum_length_filter_compl [of P xs] by simp

lemma filter_distinct_two:
  assumes "distinct (map f xs)" "1 < length xs"
  shows "filter (\<lambda>x. f x \<noteq> i) xs \<noteq> []"
proof
  assume "filter (\<lambda>x. f x \<noteq> i) xs = []"
  then have all: "\<forall>x\<in>set xs. f x = i" by (simp add: filter_empty_conv)
  from assms(2) obtain a b ys where xs: "xs = a # b # ys"
    by (cases xs; cases "tl xs") auto
  with all have "f a = i" "f b = i" by auto
  with assms(1) xs show False by simp
qed

lemma all_defined: "None \<notin> set qs \<Longrightarrow> \<exists>ys. qs = map Some ys"
proof (induction qs)
  case Nil
  then show ?case by simp
next
  case (Cons q qs)
  then obtain ys where "qs = map Some ys" by auto
  moreover from Cons.prems obtain y where "q = Some y" by (cases q) auto
  ultimately have "q # qs = map Some (y # ys)" by simp
  then show ?case by (rule exI)
qed

lemma question_ids_Some: "question_ids (map Some ys) = map qid ys"
  by (induction ys) (simp_all add: question_ids_def)

lemma js_filter_Some:
  "js_filter (\<lambda>q. case q of None \<Rightarrow> Inl TypeError | Some q' \<Rightarrow> Inr (qid q' \<noteq> i)) (map Some ys) =
   Inr (map Some (filter (\<lambda>y. qid y \<noteq> i) ys))"
  by (induction ys) simp_all

lemma removeQuestion_page_ok:
  assumes "questions p \<noteq> []" "distinct (question_ids (questions p))"
    and "removeQuestion_page pageId i p = Inr p'"
  shows "pid p' = pid p \<and> questions p' \<noteq> [] \<and> distinct (question_ids (questions p'))"
proof (cases "pid p = pageId \<and> 1 < length (questions p)")
  case False
  then have "p' = p" using assms(3) by (auto simp: removeQuestion_page_def split: if_splits)
  then show ?thesis using assms by simp
next
  case True
  let ?cb = "\<lambda>q. case q of None \<Rightarrow> Inl TypeError | Some q' \<Rightarrow> Inr (qid q' \<noteq> i)"
  from True assms(3) obtain qs where f: "js_filter ?cb (questions p) = Inr qs"
    and p': "p' = p\<lparr>questions := qs\<rparr>"
    by (auto simp: removeQuestion_page_def split: sum.splits)
  from js_filter_Inr [OF f] have "\<forall>q\<in>set (questions p). \<exists>b. ?cb q = Inr b" by simp
  then have "None \<notin> set (questions p)" by (auto split: option.splits)
  then obtain ys where ys: "questions p = map Some ys" using all_defined by blast
  have "js_filter ?cb (questions p) = Inr (map Some (filter (\<lambda>y. qid y \<noteq> i) ys))"
    unfolding ys by (rule js_filter_Some)
  with f have qs: "qs = map Some (filter (\<lambda>y. qid y \<noteq> i) ys)" by simp
  from assms(2) ys have d: "distinct (map qid ys)" by (simp add: question_ids_Some)
  from True ys have "1 < length ys" by simp
  with d have "filter (\<lambda>y. qid y \<noteq> i) ys \<noteq> []" by (rule filter_distinct_two)
  moreover have "distinct (map qid (filter (\<lambda>y. qid y \<noteq> i) ys))"
    using d by (rule distinct_map_filter)
  ultimately show ?thesis using qs p' by (simp add: question_ids_Some)
qed

text \<open>
  Removal and the minimum of one element. Removal is refused, the state returned unchanged,
  for the questions of a page that has exactly one question and for the pages of a template
  that has exactly one page; nothing of the kind holds for the title fields, where removing
  the only field leaves none. The next three conjuncts give the result in general: the
  elements with another identifier are kept in their order (for the title fields and the
  questions when no element is \<open>undefined\<close>, which reading the identifier would raise
  on). The last two conjuncts say that the refusal keeps the minimum whenever the
  identifiers of the collection are distinct: no removal then empties the page list or the
  question list of a page.
\<close>

theorem remove_minimum_cases:
  "((\<forall>p\<in>set (pages s). pid p = pageId \<longrightarrow> length (questions p) = 1) \<longrightarrow>
      removeQuestion pageId i s = Inr s) \<and>
   (length (pages s) = 1 \<longrightarrow> removePage i s = s) \<and>
   (titleFields s = [Some f] \<and> fid f = i \<longrightarrow>
      removeTitleField i s = Inr (s\<lparr>titleFields := []\<rparr>)) \<and>
   (None \<notin> set (titleFields s) \<longrightarrow>
      removeTitleField i s =
        Inr (s\<lparr>titleFields := filter (\<lambda>f. map_option fid f \<noteq> Some i) (titleFields s)\<rparr>)) \<and>
   (1 < length (pages s) \<longrightarrow>
      removePage i s = s\<lparr>pages := filter (\<lambda>p. pid p \<noteq> i) (pages s)\<rparr>) \<and>
   ((\<forall>p\<in>set (pages s). None \<notin> set (questions p)) \<longrightarrow>
      removeQuestion pageId i s =
        Inr (s\<lparr>pages :=
               map (\<lambda>p. if pid p = pageId \<and> 1 < length (questions p)
                         then p\<lparr>questions :=
                                filter (\<lambda>q. map_option qid q \<noteq> Some i) (questions p)\<rparr>
                         else p)
                   (pages s)\<rparr>)) \<and>
   (pages s \<noteq> [] \<and> distinct (map pid (pages s)) \<longrightarrow> pages (removePage i s) \<noteq> []) \<and>
   (questions p \<noteq> [] \<and> distinct (question_ids (questions p)) \<and>
    removeQuestion_page pageId i p = Inr p' \<longrightarrow> questions p' \<noteq> [])"
proof (intro conjI impI)
  assume "\<forall>p\<in>set (pages s). pid p = pageId \<longrightarrow> length (questions p) = 1"
  then show "removeQuestion pageId i s = Inr s" by (rule removeQuestion_single)
next
  assume a: "pages s \<noteq> [] \<and> distinct (map pid (pages s))"
  show "pages (removePage i s) \<noteq> []"
  proof (cases "1 < length (pages s)")
    case True
    with a have "filter (\<lambda>p. pid p \<noteq> i) (pages s) \<noteq> []"
      by (intro filter_distinct_two) simp_all
    with True show ?thesis by (simp add: removePage_several)
  next
    case False
    with a show ?thesis by (simp add: removePage_def)
  qed
next
  assume "questions p \<noteq> [] \<and> distinct (question_ids (questions p)) \<and>
    removeQuestion_page pageId i p = Inr p'"
  then show "questions p' \<noteq> []"
    using removeQuestion_page_ok [of p pageId i p'] by simp
next
  assume "length (pages s) = 1"
  then show "removePage i s = s" by (rule removePage_single)
next
  assume "titleFields s = [Some f] \<and> fid f = i"
  then show "removeTitleField i s = Inr (s\<lparr>titleFields := []\<rparr>)"
    by (simp add: removeTitleField_def)
next
  assume "None \<notin> set (titleFields s)"
  then show "removeTitleField i s =
      Inr (s\<lparr>titleFields := filter (\<lambda>f. map_option fid f \<noteq> Some i) (titleFields s)\<rparr>)"
    by (rule removeTitleField_defined)
next
  assume "1 < length (pages s)"
  then show "removePage i s = s\<lparr>pages := filter (\<lambda>p. pid p \<noteq> i) (pages s)\<rparr>"
    by (rule removePage_several)
next
  assume "\<forall>p\<in>set (pages s). None \<notin> set (questions p)"
  then show "removeQuestion pageId i s =
      Inr (s\<lparr>pages :=
             map (\<lambda>p. if pid p = pageId \<and> 1 < length (questions p)
                       then p\<lparr>questions :=
                              filter (\<lambda>q. map_option qid q \<noteq> Some i) (questions p)\<rparr>
                       else p)
                 (pages s)\<rparr>)"
    by (rule removeQuestion_defined)
qed

theorem remove_minimum_cases_witness:
  "removeQuestion 1 1 initial = Inr initial \<and>
   removePage 1 initial = initial \<and>
   removeTitleField 4
     (initial\<lparr>titleFields := [Some \<lparr> fid = 4, label = ''Location'', ftype = ''location'' \<rparr>]\<rparr>) =
     Inr (initial\<lparr>titleFields := []\<rparr>) \<and>
   (case removeTitleField 2 initial of
      Inl e \<Rightarrow> []
    | Inr s' \<Rightarrow> map (map_option fid) (titleFields s')) = [Some 1, Some 3, Some 4] \<and>
   map pid (pages (removePage 1 two_pages)) = [1700000005000] \<and>
   (case removeQuestion 1 1 two_pages of
      Inl e \<Rightarrow> []
    | Inr s' \<Rightarrow> map (\<lambda>p. map (map_option qid) (questions p)) (pages s')) =
     [[Some 1700000000000], [Some 1700000005001, Some 1700000009000]] \<and>
   pages (removePage 1 two_pages) \<noteq> [] \<and>
   removeQuestion_page 1 1 (pages two_pages ! 0) =
     Inr ((pages two_pages ! 0)\<lparr>questions :=
            [Some \<lparr> qid = 1700000000000, qtext = '''', qtype = ''yesno'' \<rparr>]\<rparr>)"
proof -
  let ?f = "\<lparr> fid = 4, label = ''Location'', ftype = ''location'' \<rparr>"
  let ?p = "pages two_pages ! 0"
  let ?p' = "?p\<lparr>questions := [Some \<lparr> qid = 1700000000000, qtext = '''', qtype = ''yesno'' \<rparr>]\<rparr>"
  have a: "removeQuestion 1 1 initial = Inr initial \<and> removePage 1 initial = initial"
    using remove_minimum_cases [where s = initial and pageId = 1 and i = 1 and f = ?f
        and p = ?p and p' = ?p']
    by (simp add: initial_def)
  have b: "removeTitleField 4 (initial\<lparr>titleFields := [Some ?f]\<rparr>) =
      Inr (initial\<lparr>titleFields := []\<rparr>)"
    using remove_minimum_cases [where s = "initial\<lparr>titleFields := [Some ?f]\<rparr>" and pageId = 1
        and i = 4 and f = ?f and p = ?p and p' = ?p']
    by simp
  have c: "(case removeTitleField 2 initial of
      Inl e \<Rightarrow> []
    | Inr s' \<Rightarrow> map (map_option fid) (titleFields s')) = [Some 1, Some 3, Some 4]"
    using remove_minimum_cases [where s = initial and pageId = 1 and i = 2 and f = ?f
        and p = ?p and p' = ?p']
    by (simp add: initial_def)
  have r: "removeQuestion_page 1 1 ?p = Inr ?p'"
    using removeQuestion_page_defined [of ?p 1 1] by (simp add: two_pages_def)
  have d: "map pid (pages (removePage 1 two_pages)) = [1700000005000] \<and>
      (case removeQuestion 1 1 two_pages of
         Inl e \<Rightarrow> []
       | Inr s' \<Rightarrow> map (\<lambda>p. map (map_option qid) (questions p)) (pages s')) =
        [[Some 1700000000000], [Some 1700000005001, Some 1700000009000]] \<and>
      pages (removePage 1 two_pages) \<noteq> []"
    using remove_minimum_cases [where s = two_pages and pageId = 1 and i = 1 and f = ?f
        and p = ?p and p' = ?p']
    by (simp add: two_pages_def)
  from a b c d r show ?thesis by (simp only: simp_thms)
qed

text \<open>
  Claim C6, evaluated where the code departs from it. The claim says that a removal is
  refused when the collection would fall below its minimum of one element.
  \<open>removePage\<close> and \<open>removeQuestion\<close> refuse when the collection has one element and
  otherwise filter on the identifier. In a collection of two elements with the same
  identifier the removal is not refused and removes both: the two pages that are left of
  \<open>twin_pages\<close> once its first page is removed, and the two questions that are left of
  \<open>twin_questions\<close> once its first question is removed.
\<close>

theorem C6_removal_below_minimum:
  "map pid (pages (removePage 1 twin_pages)) = [1700000000000, 1700000000000] \<and>
   pages (removePage 1700000000000 (removePage 1 twin_pages)) = [] \<and>
   run [RemoveQuestion 1 1] twin_questions =
     Inr (initial\<lparr>pages :=
            [\<lparr> pid = 1, title = ''Untitled Page'',
               questions = [Some \<lparr> qid = 1700000000000, qtext = '''', qtype = ''yesno'' \<rparr>,
                            Some \<lparr> qid = 1700000000000, qtext = '''', qtype = ''yesno'' \<rparr>] \<rparr>]\<rparr>) \<and>
   run [RemoveQuestion 1 1, RemoveQuestion 1 1700000000000] twin_questions =
     Inr (initial\<lparr>pages := [\<lparr> pid = 1, title = ''Untitled Page'', questions = [] \<rparr>]\<rparr>)"
  by (simp add: initial_def twin_pages_def twin_questions_def removePage_def removeQuestion_def
      removeQuestion_page_def)

text \<open>
  Claim C7, as the code has it. The claim says that for every identifier the removal from a
  collection of more than one element makes it exactly one element shorter. The removal is
  a filter on the identifier: with an identifier that no element has (99 in \<open>two_pages\<close>)
  nothing is removed, and with an identifier that two elements have (the two pages of
  \<open>twin_pages\<close>) both are.
\<close>

theorem C7_remove_counterexample:
  "1 < length (pages two_pages) \<and>
   length (pages (removePage 99 two_pages)) = length (pages two_pages) \<and>
   1 < length (questions (pages two_pages ! 0)) \<and>
   removeQuestion 1 99 two_pages = Inr two_pages \<and>
   length (pages twin_pages) = 3 \<and>
   length (pages (removePage 1700000000000 twin_pages)) = 1"
  by (simp add: initial_def two_pages_def twin_pages_def removePage_def removeQuestion_def
      removeQuestion_page_def)

text \<open>
  Claim C7, amended. Removal from a page list or a question list of one element changes
  nothing. Removal from a longer list removes every element that has the identifier and
  leaves all other elements and their order unchanged; the list is exactly one element
  shorter when exactly one element has the identifier, and unchanged when none has it. For
  the questions this is the callback of \<open>removeQuestion\<close> on the page addressed, with no
  \<open>undefined\<close> among its questions; the last conjunct says that \<open>removeQuestion\<close>
  applies it to every page.
\<close>

theorem C7_remove_by_id:
  "(length (pages s) = 1 \<longrightarrow> removePage i s = s) \<and>
   (1 < length (pages s) \<longrightarrow>
      pages (removePage i s) = filter (\<lambda>p. pid p \<noteq> i) (pages s) \<and>
      (length (filter (\<lambda>p. pid p = i) (pages s)) = 1 \<longrightarrow>
         Suc (length (pages (removePage i s))) = length (pages s)) \<and>
      (i \<notin> pid ` set (pages s) \<longrightarrow> removePage i s = s)) \<and>
   (pid p = pageId \<and> length (questions p) = 1 \<longrightarrow> removeQuestion_page pageId i p = Inr p) \<and>
   (pid p = pageId \<and> 1 < length (questions p) \<and> None \<notin> set (questions p) \<longrightarrow>
      removeQuestion_page pageId i p =
        Inr (p\<lparr>questions := filter (\<lambda>q. map_option qid q \<noteq> Some i) (questions p)\<rparr>) \<and>
      (length (filter (\<lambda>q. map_option qid q = Some i) (questions p)) = 1 \<longrightarrow>
         Suc (length (filter (\<lambda>q. map_option qid q \<noteq> Some i) (questions p))) =
         length (questions p)) \<and>
      (Some i \<notin> map_option qid ` set (questions p) \<longrightarrow>
         removeQuestion_page pageId i p = Inr p)) \<and>
   (removeQuestion pageId i t = Inr t' \<longrightarrow>
      list_all2 (\<lambda>p p'. removeQuestion_page pageId i p = Inr p') (pages t) (pages t'))"
proof (intro conjI impI)
  assume "length (pages s) = 1"
  then show "removePage i s = s" by (rule removePage_single)
next
  assume a: "1 < length (pages s)"
  then show "pages (removePage i s) = filter (\<lambda>p. pid p \<noteq> i) (pages s)"
    by (simp add: removePage_several)
  show "Suc (length (pages (removePage i s))) = length (pages s)"
    if "length (filter (\<lambda>p. pid p = i) (pages s)) = 1"
    using a filter_one_out [OF that] by (simp add: removePage_several)
  show "removePage i s = s" if "i \<notin> pid ` set (pages s)"
  proof -
    have "filter (\<lambda>p. pid p \<noteq> i) (pages s) = pages s"
      using that by (intro filter_True) auto
    then show ?thesis using a by (simp add: removePage_several)
  qed
next
  assume "pid p = pageId \<and> length (questions p) = 1"
  then show "removeQuestion_page pageId i p = Inr p" by (simp add: removeQuestion_page_single)
next
  assume a: "pid p = pageId \<and> 1 < length (questions p) \<and> None \<notin> set (questions p)"
  then show eq: "removeQuestion_page pageId i p =
      Inr (p\<lparr>questions := filter (\<lambda>q. map_option qid q \<noteq> Some i) (questions p)\<rparr>)"
    by (simp add: removeQuestion_page_defined)
  show "Suc (length (filter (\<lambda>q. map_option qid q \<noteq> Some i) (questions p))) =
      length (questions p)"
    if "length (filter (\<lambda>q. map_option qid q = Some i) (questions p)) = 1"
    using filter_one_out [OF that] by simp
  show "removeQuestion_page pageId i p = Inr p"
    if "Some i \<notin> map_option qid ` set (questions p)"
  proof -
    have "filter (\<lambda>q. map_option qid q \<noteq> Some i) (questions p) = questions p"
      using that by (intro filter_True) (auto simp: image_iff)
    then show ?thesis using eq by simp
  qed
next
  assume "removeQuestion pageId i t = Inr t'"
  then obtain pgs where "js_map (removeQuestion_page pageId i) (pages t) = Inr pgs"
    and "t' = t\<lparr>pages := pgs\<rparr>"
    by (auto simp: removeQuestion_def split: sum.splits)
  then show "list_all2 (\<lambda>p p'. removeQuestion_page pageId i p = Inr p') (pages t) (pages t')"
    using js_map_Inr by fastforce
qed


theorem C7_remove_by_id_witness:
  "removePage 1 initial = initial \<and>
   map pid (pages (removePage 1 two_pages)) = [1700000005000] \<and>
   Suc (length (pages (removePage 1 two_pages))) = length (pages two_pages) \<and>
   removePage 99 two_pages = two_pages \<and>
   removeQuestion_page 1 1 (pages initial ! 0) = Inr (pages initial ! 0) \<and>
   removeQuestion_page 1 1700000000000 (pages two_pages ! 0) = Inr (pages initial ! 0) \<and>
   removeQuestion_page 1 99 (pages two_pages ! 0) = Inr (pages two_pages ! 0) \<and>
   list_all2 (\<lambda>p p'. removeQuestion_page 1 1700000000000 p = Inr p') (pages two_pages)
     [pages initial ! 0, pages two_pages ! 1]"
  using C7_remove_by_id [where s = initial and i = 1 and p = "pages initial ! 0" and pageId = 1]
    C7_remove_by_id [where s = two_pages and i = 1]
    C7_remove_by_id [where s = two_pages and i = 99 and p = "pages two_pages ! 0" and pageId = 1]
    C7_remove_by_id [where i = 1700000000000 and p = "pages two_pages ! 0" and pageId = 1
      and t = two_pages
      and t' = "two_pages\<lparr>pages := [pages initial ! 0, pages two_pages ! 1]\<rparr>"]
    removeQuestion_defined [of two_pages 1 1700000000000]
  by (simp add: initial_def two_pages_def)

section \<open>Insertion: claim C9\<close>

lemma map_filter_app:
  "List.map_filter f (xs @ ys) = List.map_filter f xs @ List.map_filter f ys"
  by (induction xs) (auto split: option.splits)

lemma field_ids_append: "field_ids (xs @ ys) = field_ids xs @ field_ids ys"
  by (simp add: field_ids_def map_filter_app)

lemma question_ids_append: "question_ids (xs @ ys) = question_ids xs @ question_ids ys"
  by (simp add: question_ids_def map_filter_app)

lemma field_ids_single: "field_ids [Some f] = [fid f]"
  by (simp add: field_ids_def)

lemma question_ids_single: "question_ids [Some q] = [qid q]"
  by (simp add: question_ids_def)

lemma addQuestion_length: "length (pages (addQuestion clock pageId s)) = length (pages s)"
  by (simp add: addQuestion_def)

lemma addQuestion_nth:
  "k < length (pages s) \<Longrightarrow>
   pages (addQuestion clock pageId s) ! k = addQuestion_page (clock k) pageId (pages s ! k)"
  by (simp add: addQuestion_def nth_enumerate_eq)

text \<open>
  Claim C9, as the code has it. The claim says that the identifier of a new element never
  collides with an identifier the collection has used. The identifier is the reading of
  \<open>Date.now()\<close>: two insertions within one millisecond give two elements the same
  identifier, in the title fields, in the questions of a page and in the pages.
\<close>

theorem C9_insert_counterexample:
  "field_ids (titleFields (addTitleField 1700000000000 initial)) =
     [1, 2, 3, 4, 1700000000000] \<and>
   field_ids (titleFields (addTitleField 1700000000000 (addTitleField 1700000000000 initial))) =
     [1, 2, 3, 4, 1700000000000, 1700000000000] \<and>
   question_ids (questions (pages (addQuestion (steady_clock 1700000000000) 1 initial) ! 0)) =
     [1, 1700000000000] \<and>
   question_ids (questions (pages (addQuestion (steady_clock 1700000000000) 1
                                      (addQuestion (steady_clock 1700000000000) 1 initial)) ! 0)) =
     [1, 1700000000000, 1700000000000] \<and>
   map pid (pages (addPage 1700000000000 1700000000000
                     (addPage 1700000000000 1700000000000 initial))) =
     [1, 1700000000000, 1700000000000]"
  by (simp add: initial_def addTitleField_def addQuestion_def addQuestion_page_def addPage_def
      field_ids_def question_ids_def steady_clock_def)

text \<open>
  Claim C9, amended. An insertion appends the new element at the end and keeps all existing
  elements and their order. The identifier of the new element is the reading of the clock
  (for a new page the first reading, and the second reading plus one for its first
  question; for a new question the reading taken while the callback runs on its page); it is
  none of the identifiers of a set \<open>H\<close> of identifiers used so far whenever the reading
  is greater than all of them.
\<close>

theorem C9_insert_appends:
  "addTitleField now s =
     s\<lparr>titleFields := titleFields s @ [Some \<lparr> fid = now, label = '''', ftype = ''site'' \<rparr>]\<rparr> \<and>
   field_ids (titleFields (addTitleField now s)) = field_ids (titleFields s) @ [now] \<and>
   ((\<forall>h\<in>H. h < now) \<longrightarrow> last (field_ids (titleFields (addTitleField now s))) \<notin> H) \<and>
   addPage pnow qnow s =
     s\<lparr>pages := pages s @
         [\<lparr> pid = pnow, title = ''Untitled Page'',
            questions = [Some \<lparr> qid = qnow + 1, qtext = '''', qtype = ''yesno'' \<rparr>] \<rparr>]\<rparr> \<and>
   map pid (pages (addPage pnow qnow s)) = map pid (pages s) @ [pnow] \<and>
   ((\<forall>h\<in>H. h < pnow) \<longrightarrow> last (map pid (pages (addPage pnow qnow s))) \<notin> H) \<and>
   length (pages (addQuestion clock pageId s)) = length (pages s) \<and>
   (k < length (pages s) \<and> pid (pages s ! k) \<noteq> pageId \<longrightarrow>
      pages (addQuestion clock pageId s) ! k = pages s ! k) \<and>
   (k < length (pages s) \<and> pid (pages s ! k) = pageId \<longrightarrow>
      pages (addQuestion clock pageId s) ! k =
        (pages s ! k)\<lparr>questions := questions (pages s ! k) @
            [Some \<lparr> qid = clock k, qtext = '''', qtype = ''yesno'' \<rparr>]\<rparr> \<and>
      question_ids (questions (pages (addQuestion clock pageId s) ! k)) =
        question_ids (questions (pages s ! k)) @ [clock k] \<and>
      ((\<forall>h\<in>H. h < clock k) \<longrightarrow>
         last (question_ids (questions (pages (addQuestion clock pageId s) ! k))) \<notin> H))"
proof (intro conjI impI)
  show "addTitleField now s =
     s\<lparr>titleFields := titleFields s @ [Some \<lparr> fid = now, label = '''', ftype = ''site'' \<rparr>]\<rparr>"
    by (simp add: addTitleField_def)
  show f: "field_ids (titleFields (addTitleField now s)) = field_ids (titleFields s) @ [now]"
    by (simp add: addTitleField_def field_ids_append field_ids_single)
  show "last (field_ids (titleFields (addTitleField now s))) \<notin> H" if "\<forall>h\<in>H. h < now"
    using that f by auto
  show "addPage pnow qnow s =
     s\<lparr>pages := pages s @
         [\<lparr> pid = pnow, title = ''Untitled Page'',
            questions = [Some \<lparr> qid = qnow + 1, qtext = '''', qtype = ''yesno'' \<rparr>] \<rparr>]\<rparr>"
    by (simp add: addPage_def)
  show p: "map pid (pages (addPage pnow qnow s)) = map pid (pages s) @ [pnow]"
    by (simp add: addPage_def)
  show "last (map pid (pages (addPage pnow qnow s))) \<notin> H" if "\<forall>h\<in>H. h < pnow"
    using that p by auto
  show "length (pages (addQuestion clock pageId s)) = length (pages s)"
    by (rule addQuestion_length)
  show "pages (addQuestion clock pageId s) ! k = pages s ! k"
    if "k < length (pages s) \<and> pid (pages s ! k) \<noteq> pageId"
    using that by (simp add: addQuestion_nth addQuestion_page_def)
next
  assume a: "k < length (pages s) \<and> pid (pages s ! k) = pageId"
  then show eq: "pages (addQuestion clock pageId s) ! k =
        (pages s ! k)\<lparr>questions := questions (pages s ! k) @
            [Some \<lparr> qid = clock k, qtext = '''', qtype = ''yesno'' \<rparr>]\<rparr>"
    by (simp add: addQuestion_nth addQuestion_page_def)
  then show q: "question_ids (questions (pages (addQuestion clock pageId s) ! k)) =
        question_ids (questions (pages s ! k)) @ [clock k]"
    by (simp add: question_ids_append question_ids_single)
  show "last (question_ids (questions (pages (addQuestion clock pageId s) ! k))) \<notin> H"
    if "\<forall>h\<in>H. h < clock k"
    using that q by auto
qed

theorem C9_insert_appends_witness:
  "field_ids (titleFields (addTitleField 1700000000000 initial)) = [1, 2, 3, 4, 1700000000000] \<and>
   last (field_ids (titleFields (addTitleField 1700000000000 initial))) \<notin> {1, 2, 3, 4, 5} \<and>
   map pid (pages (addPage 1700000005000 1700000005000 initial)) = [1, 1700000005000] \<and>
   last (map pid (pages (addPage 1700000005000 1700000005000 initial))) \<notin> {1, 2, 3, 4, 5} \<and>
   pages (addQuestion (steady_clock 1700000010000) 1 two_pages) ! 1 = pages two_pages ! 1 \<and>
   question_ids (questions (pages (addQuestion (steady_clock 1700000010000) 1 two_pages) ! 0)) =
     [1, 1700000000000, 1700000010000] \<and>
   last (question_ids
           (questions (pages (addQuestion (steady_clock 1700000010000) 1 two_pages) ! 0))) \<notin>
     {1, 1700000000000, 1700000005001} \<and>
   question_ids
     (questions (pages (addQuestion (ticking_clock 1700000020000) 1700000000000 twin_pages) ! 1)) =
     [1700000000001, 1700000020001] \<and>
   question_ids
     (questions (pages (addQuestion (ticking_clock 1700000020000) 1700000000000 twin_pages) ! 2)) =
     [1700000000001, 1700000020002]"
proof -
  have a: "field_ids (titleFields (addTitleField 1700000000000 initial)) =
        [1, 2, 3, 4, 1700000000000] \<and>
      last (field_ids (titleFields (addTitleField 1700000000000 initial))) \<notin> {1, 2, 3, 4, 5} \<and>
      map pid (pages (addPage 1700000005000 1700000005000 initial)) = [1, 1700000005000] \<and>
      last (map pid (pages (addPage 1700000005000 1700000005000 initial))) \<notin> {1, 2, 3, 4, 5}"
    using C9_insert_appends [where now = 1700000000000 and s = initial and H = "{1, 2, 3, 4, 5}"
        and pnow = 1700000005000 and qnow = 1700000005000
        and clock = "steady_clock 1700000010000" and pageId = 1 and k = 0]
    by (simp add: initial_def field_ids_def)
  have b: "pages (addQuestion (steady_clock 1700000010000) 1 two_pages) ! 1 = pages two_pages ! 1"
    using C9_insert_appends [where now = 1700000000000 and s = two_pages and H = "{}"
        and pnow = 1700000005000 and qnow = 1700000005000
        and clock = "steady_clock 1700000010000" and pageId = 1 and k = 1]
    by (simp add: two_pages_def)
  have c: "question_ids
        (questions (pages (addQuestion (steady_clock 1700000010000) 1 two_pages) ! 0)) =
        [1, 1700000000000, 1700000010000] \<and>
      last (question_ids
              (questions (pages (addQuestion (steady_clock 1700000010000) 1 two_pages) ! 0))) \<notin>
        {1, 1700000000000, 1700000005001}"
    using C9_insert_appends [where now = 1700000000000 and s = two_pages
        and H = "{1, 1700000000000, 1700000005001}"
        and pnow = 1700000005000 and qnow = 1700000005000
        and clock = "steady_clock 1700000010000" and pageId = 1 and k = 0]
    by (simp add: two_pages_def initial_def question_ids_def steady_clock_def)
  have d: "question_ids
        (questions (pages (addQuestion (ticking_clock 1700000020000) 1700000000000
                             twin_pages) ! 1)) =
        [1700000000001, 1700000020001]"
    using C9_insert_appends [where now = 1700000000000 and s = twin_pages and H = "{}"
        and pnow = 1700000005000 and qnow = 1700000005000
        and clock = "ticking_clock 1700000020000" and pageId = 1700000000000 and k = 1]
    by (simp add: twin_pages_def initial_def question_ids_def ticking_clock_def)
  have e: "question_ids
        (questions (pages (addQuestion (ticking_clock 1700000020000) 1700000000000
                             twin_pages) ! 2)) =
        [1700000000001, 1700000020002]"
    using C9_insert_appends [where now = 1700000000000 and s = twin_pages and H = "{}"
        and pnow = 1700000005000 and qnow = 1700000005000
        and clock = "ticking_clock 1700000020000" and pageId = 1700000000000 and k = 2]
    by (simp add: twin_pages_def initial_def question_ids_def ticking_clock_def)
  from a b c d e show ?thesis by (elim conjE) (intro conjI; assumption)
qed

section \<open>Frame of the question operations: claim C10\<close>

lemma frame_map:
  "(\<And>p. pid p \<noteq> pageId \<Longrightarrow> f p = p) \<Longrightarrow>
   list_all2 (\<lambda>p p'. pid p \<noteq> pageId \<longrightarrow> p' = p) pgs (map f pgs)"
  by (simp add: list_all2_conv_all_nth)

lemma frame_js_map:
  assumes "\<And>p. pid p \<noteq> pageId \<Longrightarrow> f p = Inr p" and "js_map f pgs = Inr pgs'"
  shows "list_all2 (\<lambda>p p'. pid p \<noteq> pageId \<longrightarrow> p' = p) pgs pgs'"
proof -
  have "list_all2 (\<lambda>x y. f x = Inr y) pgs pgs'" using assms(2) by (rule js_map_Inr)
  then show ?thesis
    by (rule list_all2_mono) (use assms(1) in auto)
qed

lemma addQuestion_page_other: "pid p \<noteq> pageId \<Longrightarrow> addQuestion_page now pageId p = p"
  by (simp add: addQuestion_page_def)

lemma addQuestion_frame:
  "templateTitle (addQuestion clock pageId s) = templateTitle s"
  "templateDescription (addQuestion clock pageId s) = templateDescription s"
  "templateImage (addQuestion clock pageId s) = templateImage s"
  "titleFields (addQuestion clock pageId s) = titleFields s"
  "list_all2 (\<lambda>p p'. pid p \<noteq> pageId \<longrightarrow> p' = p) (pages s) (pages (addQuestion clock pageId s))"
proof -
  show "list_all2 (\<lambda>p p'. pid p \<noteq> pageId \<longrightarrow> p' = p) (pages s)
      (pages (addQuestion clock pageId s))"
    by (simp add: list_all2_conv_all_nth addQuestion_length addQuestion_nth
        addQuestion_page_other)
qed (simp_all add: addQuestion_def)

lemma handleQuestionChange_page_other:
  "pid p \<noteq> pageId \<Longrightarrow> handleQuestionChange_page pageId i key v p = Inr p"
  by (simp add: handleQuestionChange_page_def)

lemma read_question:
  assumes "None \<notin> set qs"
  shows "\<forall>q\<in>set qs.
           (case q of
              None \<Rightarrow> Inl TypeError
            | Some q' \<Rightarrow> Inr (Some (if qid q' = i then set_question_key key v q' else q'))) =
           Inr (map_option (\<lambda>q'. if qid q' = i then set_question_key key v q' else q') q)"
proof
  fix q assume "q \<in> set qs"
  with assms obtain q' where "q = Some q'" by (cases q) auto
  then show "(case q of
              None \<Rightarrow> Inl TypeError
            | Some q' \<Rightarrow> Inr (Some (if qid q' = i then set_question_key key v q' else q'))) =
           Inr (map_option (\<lambda>q'. if qid q' = i then set_question_key key v q' else q') q)"
    by simp
qed

lemma handleQuestionChange_page_defined:
  assumes "pid p = pageId \<longrightarrow> None \<notin> set (questions p)"
  shows "handleQuestionChange_page pageId i key v p =
         Inr (if pid p = pageId
              then p\<lparr>questions :=
                     map (map_option (\<lambda>q'. if qid q' = i then set_question_key key v q' else q'))
                         (questions p)\<rparr>
              else p)"
proof (cases "pid p = pageId")
  case False
  then show ?thesis by (simp add: handleQuestionChange_page_def)
next
  case True
  with assms have "None \<notin> set (questions p)" by simp
  from js_map_total [OF read_question [OF this, of i key v]] True
  show ?thesis by (simp add: handleQuestionChange_page_def)
qed

lemma removeQuestion_page_total:
  assumes "pid p = pageId \<longrightarrow> None \<notin> set (questions p)"
  shows "\<exists>p'. removeQuestion_page pageId i p = Inr p'"
proof (cases "pid p = pageId")
  case False
  then show ?thesis by (simp add: removeQuestion_page_def)
next
  case True
  with assms show ?thesis by (simp add: removeQuestion_page_defined)
qed

lemma js_map_all_Inr:
  "\<forall>x\<in>set xs. \<exists>y. f x = Inr y \<Longrightarrow> \<exists>ys. js_map f xs = Inr ys"
  by (induction xs) auto

text \<open>
  Claim C10. Every question operation addressed to the page \<open>pageId\<close> leaves the title,
  the description, the image and the title fields as they are, keeps the number of pages, and
  leaves every page with another identifier unchanged at its position
  (\<open>question_frame\<close>). \<open>removeQuestion\<close> and \<open>handleQuestionChange\<close> read the
  identifier of every question of the page addressed: they return a state when none of these
  questions is \<open>undefined\<close>, and the frame holds of every state they return.
\<close>

theorem C10_question_frame:
  "question_frame pageId s (addQuestion clock pageId s) \<and>
   question_frame pageId s (moveQuestion pageId idx direction s) \<and>
   question_frame pageId s (handleQuestionDrop pageId idx s) \<and>
   (removeQuestion pageId i s = Inr r \<longrightarrow> question_frame pageId s r) \<and>
   (handleQuestionChange pageId i key v s = Inr c \<longrightarrow> question_frame pageId s c) \<and>
   ((\<forall>p\<in>set (pages s). pid p = pageId \<longrightarrow> None \<notin> set (questions p)) \<longrightarrow>
      (\<exists>r'. removeQuestion pageId i s = Inr r') \<and>
      (\<exists>c'. handleQuestionChange pageId i key v s = Inr c'))"
proof (intro conjI impI)
  show "question_frame pageId s (addQuestion clock pageId s)"
    by (simp add: question_frame_def addQuestion_frame)
  show "question_frame pageId s (moveQuestion pageId idx direction s)"
    by (simp add: question_frame_def moveQuestion_def frame_map moveQuestion_page_other)
  show "question_frame pageId s (handleQuestionDrop pageId idx s)"
    by (cases "dragPageId (draggedQuestion s)"; cases "dragIdx (draggedQuestion s)")
      (simp_all add: question_frame_def handleQuestionDrop_def frame_map
        handleQuestionDrop_page_other list_all2_refl)
next
  assume "removeQuestion pageId i s = Inr r"
  then obtain pgs where "js_map (removeQuestion_page pageId i) (pages s) = Inr pgs"
    and "r = s\<lparr>pages := pgs\<rparr>"
    by (auto simp: removeQuestion_def split: sum.splits)
  then show "question_frame pageId s r"
    using frame_js_map [of pageId "removeQuestion_page pageId i" "pages s" pgs]
    by (simp add: question_frame_def removeQuestion_page_other)
next
  assume "handleQuestionChange pageId i key v s = Inr c"
  then obtain pgs where "js_map (handleQuestionChange_page pageId i key v) (pages s) = Inr pgs"
    and "c = s\<lparr>pages := pgs\<rparr>"
    by (auto simp: handleQuestionChange_def split: sum.splits)
  then show "question_frame pageId s c"
    using frame_js_map [of pageId "handleQuestionChange_page pageId i key v" "pages s" pgs]
    by (simp add: question_frame_def handleQuestionChange_page_other)
next
  assume a: "\<forall>p\<in>set (pages s). pid p = pageId \<longrightarrow> None \<notin> set (questions p)"
  then have "\<forall>p\<in>set (pages s). \<exists>p'. removeQuestion_page pageId i p = Inr p'"
    by (simp add: removeQuestion_page_total)
  then obtain pgs where "js_map (removeQuestion_page pageId i) (pages s) = Inr pgs"
    using js_map_all_Inr by blast
  then show "\<exists>r'. removeQuestion pageId i s = Inr r'" by (simp add: removeQuestion_def)
  from a have "\<forall>p\<in>set (pages s). \<exists>p'. handleQuestionChange_page pageId i key v p = Inr p'"
    by (simp add: handleQuestionChange_page_defined)
  then obtain pgs' where "js_map (handleQuestionChange_page pageId i key v) (pages s) = Inr pgs'"
    using js_map_all_Inr by blast
  then show "\<exists>c'. handleQuestionChange pageId i key v s = Inr c'"
    by (simp add: handleQuestionChange_def)
qed

theorem C10_question_frame_witness:
  "pages (addQuestion (steady_clock 1700000010000) 1 two_pages) ! 1 = pages two_pages ! 1 \<and>
   titleFields (addQuestion (steady_clock 1700000010000) 1 two_pages) = titleFields initial \<and>
   question_frame 1 two_pages (moveQuestion 1 1 ''up'' two_pages) \<and>
   question_frame 1 two_pages (handleQuestionDrop 1 0 (handleQuestionDragStart 1 1 two_pages)) \<and>
   removeQuestion 1 1 two_pages =
     Inr (two_pages\<lparr>pages :=
            [ (pages two_pages ! 0)\<lparr>questions :=
                 [Some \<lparr> qid = 1700000000000, qtext = '''', qtype = ''yesno'' \<rparr>]\<rparr>,
              pages two_pages ! 1 ]\<rparr>) \<and>
   question_frame 1 two_pages
     (two_pages\<lparr>pages :=
            [ (pages two_pages ! 0)\<lparr>questions :=
                 [Some \<lparr> qid = 1700000000000, qtext = '''', qtype = ''yesno'' \<rparr>]\<rparr>,
              pages two_pages ! 1 ]\<rparr>)"
  using C10_question_frame [where pageId = 1 and s = two_pages
      and clock = "steady_clock 1700000010000"
      and idx = 1 and direction = "''up''" and i = 1
      and r = "two_pages\<lparr>pages :=
            [ (pages two_pages ! 0)\<lparr>questions :=
                 [Some \<lparr> qid = 1700000000000, qtext = '''', qtype = ''yesno'' \<rparr>]\<rparr>,
              pages two_pages ! 1 ]\<rparr>"]
    C10_question_frame [where pageId = 1 and s = "handleQuestionDragStart 1 1 two_pages"
      and idx = 0]
    removeQuestion_defined [of two_pages 1 1]
  by (simp add: initial_def two_pages_def question_frame_def handleQuestionDragStart_def
      addQuestion_def addQuestion_page_def steady_clock_def)

section \<open>Minimum cardinality: claim C5\<close>

text \<open>
  Claim C5, evaluated where the code departs from it. \<open>removeQuestion\<close> and
  \<open>removePage\<close> test the length before they filter, and the filter removes every element
  that has the identifier. Two questions added within one millisecond have the same
  identifier; once the first question is removed, removing one of the two removes both and
  the page has no question. The same four steps on pages leave the template without a page.
\<close>

theorem C5_duplicate_ids_break_minimum:
  "min_cardinality initial \<and>
   run [AddQuestion (steady_clock 1700000000000) 1, AddQuestion (steady_clock 1700000000000) 1,
        RemoveQuestion 1 1, RemoveQuestion 1 1700000000000] initial =
     Inr (initial\<lparr>pages := [\<lparr> pid = 1, title = ''Untitled Page'', questions = [] \<rparr>]\<rparr>) \<and>
   \<not> min_cardinality
       (initial\<lparr>pages := [\<lparr> pid = 1, title = ''Untitled Page'', questions = [] \<rparr>]\<rparr>) \<and>
   run [AddPage 1700000000000 1700000000000, AddPage 1700000000000 1700000000000,
        RemovePage 1, RemovePage 1700000000000] initial =
     Inr (initial\<lparr>pages := []\<rparr>) \<and>
   \<not> min_cardinality (initial\<lparr>pages := []\<rparr>)"
  by (simp add: initial_def min_cardinality_def addQuestion_def addQuestion_page_def
      removeQuestion_def removeQuestion_page_def addPage_def removePage_def steady_clock_def)

subsection \<open>The splice idiom on arbitrary indices\<close>

lemma js_splice_insert_mset: "mset (snd (js_splice b 0 [x] ys)) = add_mset x (mset ys)"
proof -
  define st where "st = nat (if b < 0 then max (int (length ys) + b) 0 else min b (int (length ys)))"
  have "snd (js_splice b 0 [x] ys) = take st ys @ [x] @ drop st ys"
    by (auto simp: js_splice_def Let_def st_def min_def max_def)
  moreover have "mset (take st ys @ [x] @ drop st ys) = add_mset x (mset (take st ys @ drop st ys))"
    by (simp del: append_take_drop_id)
  ultimately show ?thesis by simp
qed

lemma js_splice_remove_cases:
  "js_splice a 1 [] xs = ([], xs) \<or>
   (\<exists>n<length xs. js_splice a 1 [] xs = ([xs ! n], take n xs @ drop (Suc n) xs))"
proof -
  define st where "st = (if a < 0 then max (int (length xs) + a) 0 else min a (int (length xs)))"
  have st: "0 \<le> st" "st \<le> int (length xs)" by (auto simp: st_def)
  show ?thesis
  proof (cases "st = int (length xs)")
    case True
    then have "js_splice a 1 [] xs = ([], xs)"
      by (simp add: js_splice_def Let_def st_def [symmetric])
    then show ?thesis by simp
  next
    case False
    with st have lt: "st < int (length xs)" by simp
    have "js_splice a 1 [] xs = js_splice st 1 [] xs"
      using st lt by (simp add: js_splice_def Let_def st_def [symmetric] min_def max_def)
    also have "\<dots> = ([xs ! nat st], take (nat st) xs @ drop (Suc (nat st)) xs)"
      using st lt by (intro js_splice_remove_in) auto
    finally show ?thesis using st lt by (intro disjI2 exI [of _ "nat st"]) auto
  qed
qed

lemma splice_reinsert_mset_cases:
  "mset (splice_reinsert a b xs) = mset xs \<or>
   mset (splice_reinsert a b xs) = add_mset None (mset xs)"
proof -
  consider "js_splice a 1 [] xs = ([], xs)"
    | n where "n < length xs" "js_splice a 1 [] xs = ([xs ! n], take n xs @ drop (Suc n) xs)"
    using js_splice_remove_cases [of a xs] by blast
  then show ?thesis
  proof cases
    case 1
    then show ?thesis
      by (simp add: splice_reinsert_def first_elem_def js_splice_insert_mset)
  next
    case 2
    have "mset xs = mset (take n xs @ xs ! n # drop (Suc n) xs)"
      using 2(1) by (simp only: id_take_nth_drop [symmetric])
    then have "add_mset (xs ! n) (mset (take n xs @ drop (Suc n) xs)) = mset xs" by simp
    then show ?thesis
      using 2(2) by (simp add: splice_reinsert_def first_elem_def js_splice_insert_mset)
  qed
qed

lemma splice_reinsert_nonempty: "splice_reinsert a b xs \<noteq> []"
proof -
  obtain r rest where "js_splice a 1 [] xs = (r, rest)" by (cases "js_splice a 1 [] xs")
  then have "mset (splice_reinsert a b xs) = add_mset (first_elem r) (mset rest)"
    by (simp add: splice_reinsert_def js_splice_insert_mset)
  then show ?thesis by auto
qed

lemma mset_question_ids:
  "mset (question_ids qs) =
   image_mset (\<lambda>q. qid (the q)) (filter_mset (\<lambda>q. q \<noteq> None) (mset qs))"
  by (simp add: question_ids_def List.map_filter_def comp_def multiset.map_comp)

lemma question_ids_splice_reinsert:
  "mset (question_ids (splice_reinsert a b qs)) = mset (question_ids qs)"
  using splice_reinsert_mset_cases [of a b qs] by (auto simp: mset_question_ids)

lemma distinct_question_ids_splice_reinsert:
  "distinct (question_ids (splice_reinsert a b qs)) = distinct (question_ids qs)"
  using question_ids_splice_reinsert by (rule mset_eq_imp_distinct_iff)

subsection \<open>Runs with fresh clock readings keep the minimum\<close>

lemma inv_iff:
  "min_cardinality s \<and> distinct_ids s \<longleftrightarrow>
   pages s \<noteq> [] \<and> distinct (map pid (pages s)) \<and>
   (\<forall>p\<in>set (pages s). questions p \<noteq> [] \<and> distinct (question_ids (questions p)))"
  by (auto simp: min_cardinality_def distinct_ids_def list_all_iff)

lemma inv_same_pages:
  "pages s' = pages s \<Longrightarrow> min_cardinality s \<and> distinct_ids s \<Longrightarrow>
   min_cardinality s' \<and> distinct_ids s'"
  by (simp add: min_cardinality_def distinct_ids_def)

lemma inv_map:
  assumes "min_cardinality s \<and> distinct_ids s"
    and "\<And>p. p \<in> set (pages s) \<Longrightarrow> questions p \<noteq> [] \<Longrightarrow> distinct (question_ids (questions p)) \<Longrightarrow>
           pid (f p) = pid p \<and> questions (f p) \<noteq> [] \<and> distinct (question_ids (questions (f p)))"
  shows "min_cardinality (s\<lparr>pages := map f (pages s)\<rparr>) \<and>
         distinct_ids (s\<lparr>pages := map f (pages s)\<rparr>)"
proof -
  from assms(1) have a: "pages s \<noteq> []" "distinct (map pid (pages s))"
    and ok: "\<forall>p\<in>set (pages s). questions p \<noteq> [] \<and> distinct (question_ids (questions p))"
    unfolding inv_iff by blast+
  have step: "pid (f p) = pid p \<and> questions (f p) \<noteq> [] \<and> distinct (question_ids (questions (f p)))"
    if "p \<in> set (pages s)" for p
    using that ok assms(2) by blast
  have "map (\<lambda>p. pid (f p)) (pages s) = map pid (pages s)"
    by (rule map_cong) (simp_all add: step)
  then have ids: "map pid (map f (pages s)) = map pid (pages s)" by (simp add: comp_def)
  have "pages (s\<lparr>pages := map f (pages s)\<rparr>) \<noteq> []" using a(1) by simp
  moreover have "distinct (map pid (pages (s\<lparr>pages := map f (pages s)\<rparr>)))"
    using a(2) ids by (simp del: map_map)
  moreover have "\<forall>p\<in>set (pages (s\<lparr>pages := map f (pages s)\<rparr>)).
      questions p \<noteq> [] \<and> distinct (question_ids (questions p))"
    using step by auto
  ultimately show ?thesis unfolding inv_iff by blast
qed

lemma js_map_pid:
  assumes "list_all2 (\<lambda>p p'. cb p = Inr p') pgs pgs'"
    and "\<And>p p'. p \<in> set pgs \<Longrightarrow> cb p = Inr p' \<Longrightarrow> pid p' = pid p"
  shows "map pid pgs' = map pid pgs"
  using assms
proof (induction pgs arbitrary: pgs')
  case Nil
  then show ?case by simp
next
  case (Cons p pgs)
  from Cons.prems(1) obtain q qs where pgs': "pgs' = q # qs" and q: "cb p = Inr q"
    and rest: "list_all2 (\<lambda>p p'. cb p = Inr p') pgs qs"
    by (auto simp: list_all2_Cons1)
  have "pid q = pid p" using Cons.prems(2) [of p q] q by simp
  moreover have "map pid qs = map pid pgs"
    using rest Cons.prems(2) by (intro Cons.IH) auto
  ultimately show ?case using pgs' by simp
qed

lemma js_map_set:
  assumes "list_all2 (\<lambda>p p'. cb p = Inr p') pgs pgs'" and "p' \<in> set pgs'"
  shows "\<exists>p\<in>set pgs. cb p = Inr p'"
proof -
  from assms(2) obtain k where k: "k < length pgs'" "pgs' ! k = p'"
    by (auto simp: in_set_conv_nth)
  from assms(1) have "length pgs = length pgs'" by (rule list_all2_lengthD)
  moreover have "cb (pgs ! k) = Inr (pgs' ! k)"
    using list_all2_nthD2 [OF assms(1) k(1)] .
  ultimately show ?thesis using k by (intro bexI [of _ "pgs ! k"]) auto
qed

lemma inv_js_map:
  assumes "min_cardinality s \<and> distinct_ids s"
    and "js_map cb (pages s) = Inr pgs'"
    and "\<And>p p'. p \<in> set (pages s) \<Longrightarrow> questions p \<noteq> [] \<Longrightarrow>
           distinct (question_ids (questions p)) \<Longrightarrow> cb p = Inr p' \<Longrightarrow>
           pid p' = pid p \<and> questions p' \<noteq> [] \<and> distinct (question_ids (questions p'))"
  shows "min_cardinality (s\<lparr>pages := pgs'\<rparr>) \<and> distinct_ids (s\<lparr>pages := pgs'\<rparr>)"
proof -
  from assms(1) have a: "pages s \<noteq> []" "distinct (map pid (pages s))"
    and ok: "\<forall>p\<in>set (pages s). questions p \<noteq> [] \<and> distinct (question_ids (questions p))"
    unfolding inv_iff by blast+
  have step: "pid p' = pid p \<and> questions p' \<noteq> [] \<and> distinct (question_ids (questions p'))"
    if "p \<in> set (pages s)" "cb p = Inr p'" for p p'
    using assms(3) [of p p'] that ok by simp
  have l: "list_all2 (\<lambda>p p'. cb p = Inr p') (pages s) pgs'"
    using assms(2) by (rule js_map_Inr)
  have ids: "map pid pgs' = map pid (pages s)"
  proof (rule js_map_pid [OF l])
    fix p p' assume "p \<in> set (pages s)" "cb p = Inr p'"
    then show "pid p' = pid p" using step [of p p'] by simp
  qed
  have "pages (s\<lparr>pages := pgs'\<rparr>) \<noteq> []"
    using l a(1) by (auto dest: list_all2_lengthD)
  moreover have "distinct (map pid (pages (s\<lparr>pages := pgs'\<rparr>)))" using a(2) ids by simp
  moreover have "\<forall>p'\<in>set (pages (s\<lparr>pages := pgs'\<rparr>)).
      questions p' \<noteq> [] \<and> distinct (question_ids (questions p'))"
  proof
    fix p' assume "p' \<in> set (pages (s\<lparr>pages := pgs'\<rparr>))"
    then have "p' \<in> set pgs'" by simp
    from js_map_set [OF l this] obtain p where "p \<in> set (pages s)" "cb p = Inr p'"
      by blast
    then show "questions p' \<noteq> [] \<and> distinct (question_ids (questions p'))"
      using step [of p p'] by simp
  qed
  ultimately show ?thesis unfolding inv_iff by blast
qed

lemma inv_removePage:
  assumes "min_cardinality s \<and> distinct_ids s"
  shows "min_cardinality (removePage i s) \<and> distinct_ids (removePage i s)"
proof (cases "1 < length (pages s)")
  case False
  then have "pages (removePage i s) = pages s" by (simp add: removePage_def)
  then show ?thesis using assms by (rule inv_same_pages)
next
  case True
  from assms have a: "distinct (map pid (pages s))"
    and ok: "\<forall>p\<in>set (pages s). questions p \<noteq> [] \<and> distinct (question_ids (questions p))"
    unfolding inv_iff by blast+
  have eq: "pages (removePage i s) = filter (\<lambda>p. pid p \<noteq> i) (pages s)"
    using True by (simp add: removePage_several)
  have "filter (\<lambda>p. pid p \<noteq> i) (pages s) \<noteq> []"
    using a True by (rule filter_distinct_two)
  moreover have "distinct (map pid (filter (\<lambda>p. pid p \<noteq> i) (pages s)))"
    using a by (rule distinct_map_filter)
  moreover have "\<forall>p\<in>set (filter (\<lambda>p. pid p \<noteq> i) (pages s)).
      questions p \<noteq> [] \<and> distinct (question_ids (questions p))"
    using ok by simp
  ultimately show ?thesis unfolding inv_iff eq by blast
qed

lemma inv_addPage:
  assumes "min_cardinality s \<and> distinct_ids s" "now1 \<notin> set (map pid (pages s))"
  shows "min_cardinality (addPage now1 now2 s) \<and> distinct_ids (addPage now1 now2 s)"
proof -
  from assms(1) have a: "distinct (map pid (pages s))"
    and ok: "\<forall>p\<in>set (pages s). questions p \<noteq> [] \<and> distinct (question_ids (questions p))"
    unfolding inv_iff by blast+
  let ?new = "\<lparr> pid = now1, title = ''Untitled Page'',
                questions = [Some \<lparr> qid = now2 + 1, qtext = '''', qtype = ''yesno'' \<rparr>] \<rparr>"
  have eq: "pages (addPage now1 now2 s) = pages s @ [?new]" by (simp add: addPage_def)
  have "pages s @ [?new] \<noteq> []" by simp
  moreover have "distinct (map pid (pages s @ [?new]))" using a assms(2) by simp
  moreover have "\<forall>p\<in>set (pages s @ [?new]).
      questions p \<noteq> [] \<and> distinct (question_ids (questions p))"
    using ok by (simp add: question_ids_single)
  ultimately show ?thesis unfolding inv_iff eq by blast
qed

lemma movePage_mset: "mset (pages (movePage i direction s)) = mset (pages s)"
proof -
  let ?idx = "findIndex (\<lambda>p. pid p = i) (pages s)"
  let ?new = "if direction = ''up'' then ?idx - 1 else ?idx + 1"
  have eq: "pages (movePage i direction s) =
      (if ?idx < 0 then pages s
       else if ?new < 0 \<or> int (length (pages s)) \<le> ?new then pages s
       else (case js_splice ?idx 1 [] (pages s) of
               (removedArr, newPages) \<Rightarrow>
                 (case removedArr of
                    [] \<Rightarrow> newPages
                  | removed # _ \<Rightarrow> snd (js_splice ?new 0 [removed] newPages))))"
    unfolding movePage_def Let_def by simp
  show ?thesis
  proof (cases "?idx < 0 \<or> ?new < 0 \<or> int (length (pages s)) \<le> ?new")
    case True
    then show ?thesis unfolding eq by presburger
  next
    case False
    have "?idx < int (length (pages s))"
      using findIndex_bounds [of "\<lambda>p. pid p = i" "pages s"] by simp
    with False have b: "0 \<le> ?idx" "?idx < int (length (pages s))" "0 \<le> ?new"
      by (simp_all split: if_splits)
    have "pages (movePage i direction s) = reinsert_at (nat ?idx) (nat ?new) (pages s)"
      unfolding eq using False splice_list_in [OF b] by presburger
    moreover have "nat ?idx < length (pages s)" using b by linarith
    ultimately show ?thesis by (simp add: reinsert_at_mset)
  qed
qed

lemma inv_movePage:
  assumes "min_cardinality s \<and> distinct_ids s"
  shows "min_cardinality (movePage i direction s) \<and> distinct_ids (movePage i direction s)"
proof -
  from assms have a: "pages s \<noteq> []" "distinct (map pid (pages s))"
    and ok: "\<forall>p\<in>set (pages s). questions p \<noteq> [] \<and> distinct (question_ids (questions p))"
    unfolding inv_iff by blast+
  have m: "mset (pages (movePage i direction s)) = mset (pages s)" by (rule movePage_mset)
  then have "mset (map pid (pages (movePage i direction s))) = mset (map pid (pages s))"
    by (rule mset_ids)
  then have "distinct (map pid (pages (movePage i direction s))) = distinct (map pid (pages s))"
    by (rule mset_eq_imp_distinct_iff)
  then have d: "distinct (map pid (pages (movePage i direction s)))" using a(2) by simp
  have set: "set (pages (movePage i direction s)) = set (pages s)"
    using m by (rule mset_eq_setD)
  have "length (pages (movePage i direction s)) = length (pages s)"
    using m by (rule mset_eq_length)
  then have ne: "pages (movePage i direction s) \<noteq> []" using a(1) by auto
  show ?thesis unfolding inv_iff using ne d ok set by simp
qed

lemma question_change_ids:
  assumes "list_all2 (\<lambda>q q'. (case q of None \<Rightarrow> Inl TypeError
              | Some x \<Rightarrow> Inr (Some (if qid x = i then set_question_key key v x else x))) = Inr q')
            qs qs'"
  shows "question_ids qs' = question_ids qs \<and> length qs' = length qs"
  using assms
proof (induction qs arbitrary: qs')
  case Nil
  then show ?case by simp
next
  case (Cons q qs)
  from Cons.prems obtain r rs where qs': "qs' = r # rs"
    and r: "(case q of None \<Rightarrow> Inl TypeError
              | Some x \<Rightarrow> Inr (Some (if qid x = i then set_question_key key v x else x))) = Inr r"
    and rest: "list_all2 (\<lambda>q q'. (case q of None \<Rightarrow> Inl TypeError
              | Some x \<Rightarrow> Inr (Some (if qid x = i then set_question_key key v x else x))) = Inr q')
            qs rs"
    by (auto simp: list_all2_Cons1)
  from r obtain x where q: "q = Some x"
    and rx: "r = Some (if qid x = i then set_question_key key v x else x)"
    by (cases q) auto
  have "qid (if qid x = i then set_question_key key v x else x) = qid x"
    by (cases key) (simp_all add: set_question_key_def)
  then have "question_ids [r] = question_ids [q]" using q rx by (simp add: question_ids_single)
  moreover have "question_ids rs = question_ids qs \<and> length rs = length qs"
    using rest by (rule Cons.IH)
  ultimately show ?case
    using qs' question_ids_append [of "[r]" rs] question_ids_append [of "[q]" qs] by simp
qed

lemma handleQuestionChange_page_ok:
  assumes "questions p \<noteq> []" "distinct (question_ids (questions p))"
    and "handleQuestionChange_page pageId i key v p = Inr p'"
  shows "pid p' = pid p \<and> questions p' \<noteq> [] \<and> distinct (question_ids (questions p'))"
proof (cases "pid p = pageId")
  case False
  then have "p' = p" using assms(3) by (simp add: handleQuestionChange_page_def)
  then show ?thesis using assms by simp
next
  case True
  let ?cb = "\<lambda>q. case q of None \<Rightarrow> Inl TypeError
              | Some x \<Rightarrow> Inr (Some (if qid x = i then set_question_key key v x else x))"
  from True assms(3) obtain qs where m: "js_map ?cb (questions p) = Inr qs"
    and p': "p' = p\<lparr>questions := qs\<rparr>"
    by (auto simp: handleQuestionChange_page_def split: sum.splits)
  have "list_all2 (\<lambda>q q'. ?cb q = Inr q') (questions p) qs" using m by (rule js_map_Inr)
  then have "question_ids qs = question_ids (questions p) \<and> length qs = length (questions p)"
    by (rule question_change_ids)
  then show ?thesis using assms(1,2) p' by auto
qed

lemma splice_page_ok:
  assumes "distinct (question_ids (questions p))"
  shows "questions (p\<lparr>questions := splice_reinsert a b (questions p)\<rparr>) \<noteq> [] \<and>
         distinct (question_ids (questions (p\<lparr>questions := splice_reinsert a b (questions p)\<rparr>)))"
  using assms by (simp add: splice_reinsert_nonempty distinct_question_ids_splice_reinsert)

lemma moveQuestion_page_ok:
  assumes "questions p \<noteq> []" "distinct (question_ids (questions p))"
  shows "pid (moveQuestion_page pageId idx direction p) = pid p \<and>
         questions (moveQuestion_page pageId idx direction p) \<noteq> [] \<and>
         distinct (question_ids (questions (moveQuestion_page pageId idx direction p)))"
  using assms splice_page_ok [OF assms(2)]
  by (simp add: moveQuestion_page_def Let_def)

lemma handleQuestionDrop_page_ok:
  assumes "questions p \<noteq> []" "distinct (question_ids (questions p))"
  shows "pid (handleQuestionDrop_page dragged pageId idx p) = pid p \<and>
         questions (handleQuestionDrop_page dragged pageId idx p) \<noteq> [] \<and>
         distinct (question_ids (questions (handleQuestionDrop_page dragged pageId idx p)))"
  using assms splice_page_ok [OF assms(2)]
  by (simp add: handleQuestionDrop_page_def)

lemma addQuestion_page_ok:
  assumes "questions p \<noteq> []" "distinct (question_ids (questions p))"
    and "pid p = pageId \<longrightarrow> now \<notin> set (question_ids (questions p))"
  shows "pid (addQuestion_page now pageId p) = pid p \<and>
         questions (addQuestion_page now pageId p) \<noteq> [] \<and>
         distinct (question_ids (questions (addQuestion_page now pageId p)))"
  using assms
  by (simp add: addQuestion_page_def question_ids_append question_ids_single)

lemma handleTitleFieldChange_pages:
  "handleTitleFieldChange i key v s = Inr s' \<Longrightarrow> pages s' = pages s"
  by (auto simp: handleTitleFieldChange_def split: sum.splits)

lemma removeTitleField_pages: "removeTitleField i s = Inr s' \<Longrightarrow> pages s' = pages s"
  by (auto simp: removeTitleField_def split: sum.splits)

lemma handleTitleFieldDrop_pages: "pages (handleTitleFieldDrop idx s) = pages s"
  by (simp add: handleTitleFieldDrop_def split: option.splits)

lemma handleImageChange_pages: "pages (handleImageChange file s) = pages s"
  by (simp add: handleImageChange_def split: option.splits)

lemma inv_addQuestion:
  assumes "min_cardinality s \<and> distinct_ids s"
    and "list_all (\<lambda>(k, p). pid p = pageId \<longrightarrow> clock k \<notin> set (question_ids (questions p)))
           (enumerate 0 (pages s))"
  shows "min_cardinality (addQuestion clock pageId s) \<and>
         distinct_ids (addQuestion clock pageId s)"
proof -
  let ?s' = "addQuestion clock pageId s"
  from assms(1) have a: "pages s \<noteq> []" "distinct (map pid (pages s))"
    and ok: "\<forall>p\<in>set (pages s). questions p \<noteq> [] \<and> distinct (question_ids (questions p))"
    unfolding inv_iff by blast+
  have fr: "pid (pages s ! k) = pageId \<longrightarrow>
      clock k \<notin> set (question_ids (questions (pages s ! k)))" if "k < length (pages s)" for k
    using assms(2) that by (simp add: list_all_length nth_enumerate_eq)
  have step: "pid (pages ?s' ! k) = pid (pages s ! k) \<and> questions (pages ?s' ! k) \<noteq> [] \<and>
      distinct (question_ids (questions (pages ?s' ! k)))" if k: "k < length (pages s)" for k
  proof -
    from k have "pages s ! k \<in> set (pages s)" by simp
    with ok have "questions (pages s ! k) \<noteq> []"
      "distinct (question_ids (questions (pages s ! k)))" by blast+
    from addQuestion_page_ok [OF this fr [OF k]] show ?thesis
      by (simp add: addQuestion_nth [OF k])
  qed
  have "map pid (pages ?s') = map pid (pages s)"
    by (rule nth_equalityI) (simp_all add: addQuestion_length step)
  with a(2) have "distinct (map pid (pages ?s'))" by simp
  moreover from a(1) have "pages ?s' \<noteq> []"
    using addQuestion_length [of clock pageId s] by (metis length_0_conv)
  moreover have "\<forall>p\<in>set (pages ?s').
      questions p \<noteq> [] \<and> distinct (question_ids (questions p))"
  proof
    fix p assume "p \<in> set (pages ?s')"
    then obtain k where "k < length (pages s)" "p = pages ?s' ! k"
      by (auto simp: in_set_conv_nth addQuestion_length)
    with step [of k] show "questions p \<noteq> [] \<and> distinct (question_ids (questions p))" by simp
  qed
  ultimately show ?thesis unfolding inv_iff by blast
qed

lemma inv_moveQuestion:
  assumes "min_cardinality s \<and> distinct_ids s"
  shows "min_cardinality (moveQuestion pageId idx direction s) \<and>
         distinct_ids (moveQuestion pageId idx direction s)"
  unfolding moveQuestion_def using assms
  by (rule inv_map) (rule moveQuestion_page_ok)

lemma inv_handlePageTitleChange:
  assumes "min_cardinality s \<and> distinct_ids s"
  shows "min_cardinality (handlePageTitleChange i v s) \<and>
         distinct_ids (handlePageTitleChange i v s)"
  unfolding handlePageTitleChange_def using assms
  by (rule inv_map) simp

lemma inv_handleQuestionDrop:
  assumes "min_cardinality s \<and> distinct_ids s"
  shows "min_cardinality (handleQuestionDrop pageId idx s) \<and>
         distinct_ids (handleQuestionDrop pageId idx s)"
proof (cases "dragPageId (draggedQuestion s) = None \<or> dragIdx (draggedQuestion s) = None")
  case True
  then have "handleQuestionDrop pageId idx s = s" by (rule handleQuestionDrop_cancel)
  then show ?thesis using assms by simp
next
  case False
  then obtain dp src where "dragPageId (draggedQuestion s) = Some dp"
    "dragIdx (draggedQuestion s) = Some src" by auto
  then have eq: "pages (handleQuestionDrop pageId idx s) =
      pages (s\<lparr>pages := map (handleQuestionDrop_page src pageId idx) (pages s)\<rparr>)"
    by (simp add: handleQuestionDrop_active)
  have "min_cardinality (s\<lparr>pages := map (handleQuestionDrop_page src pageId idx) (pages s)\<rparr>) \<and>
        distinct_ids (s\<lparr>pages := map (handleQuestionDrop_page src pageId idx) (pages s)\<rparr>)"
    using assms by (rule inv_map) (rule handleQuestionDrop_page_ok)
  then show ?thesis using eq by (rule inv_same_pages [rotated])
qed

lemma inv_removeQuestion:
  assumes "min_cardinality s \<and> distinct_ids s" "removeQuestion pageId i s = Inr s'"
  shows "min_cardinality s' \<and> distinct_ids s'"
proof -
  from assms(2) obtain pgs where m: "js_map (removeQuestion_page pageId i) (pages s) = Inr pgs"
    and s': "s' = s\<lparr>pages := pgs\<rparr>"
    by (auto simp: removeQuestion_def split: sum.splits)
  show ?thesis unfolding s' using assms(1) m
    by (rule inv_js_map) (rule removeQuestion_page_ok)
qed

lemma inv_handleQuestionChange:
  assumes "min_cardinality s \<and> distinct_ids s" "handleQuestionChange pageId i key v s = Inr s'"
  shows "min_cardinality s' \<and> distinct_ids s'"
proof -
  from assms(2) obtain pgs
    where m: "js_map (handleQuestionChange_page pageId i key v) (pages s) = Inr pgs"
    and s': "s' = s\<lparr>pages := pgs\<rparr>"
    by (auto simp: handleQuestionChange_def split: sum.splits)
  show ?thesis unfolding s' using assms(1) m
    by (rule inv_js_map) (rule handleQuestionChange_page_ok)
qed

lemma inv_handle:
  assumes inv: "min_cardinality s \<and> distinct_ids s" and fr: "fresh e s"
    and h: "handle e s = Inr s'"
  shows "min_cardinality s' \<and> distinct_ids s'"
proof (cases e)
  case (SetTemplateTitle v)
  with h have "pages s' = pages s" by (auto simp: setTemplateTitle_def)
  then show ?thesis using inv by (rule inv_same_pages)
next
  case (SetTemplateDescription v)
  with h have "pages s' = pages s" by (auto simp: setTemplateDescription_def)
  then show ?thesis using inv by (rule inv_same_pages)
next
  case (ImageChange img)
  with h have "pages s' = pages s" by (auto simp: handleImageChange_pages)
  then show ?thesis using inv by (rule inv_same_pages)
next
  case (TitleFieldChange i key v)
  with h have "pages s' = pages s" by (simp add: handleTitleFieldChange_pages)
  then show ?thesis using inv by (rule inv_same_pages)
next
  case (AddTitleField now)
  with h have "pages s' = pages s" by (auto simp: addTitleField_def)
  then show ?thesis using inv by (rule inv_same_pages)
next
  case (RemoveTitleField i)
  with h have "pages s' = pages s" by (simp add: removeTitleField_pages)
  then show ?thesis using inv by (rule inv_same_pages)
next
  case (MoveTitleField idx direction)
  with h have "pages s' = pages s" by (auto simp: moveTitleField_def)
  then show ?thesis using inv by (rule inv_same_pages)
next
  case (TitleFieldDragStart idx)
  with h have "pages s' = pages s" by (auto simp: handleTitleFieldDragStart_def)
  then show ?thesis using inv by (rule inv_same_pages)
next
  case (TitleFieldDrop idx)
  with h have "pages s' = pages s" by (auto simp: handleTitleFieldDrop_pages)
  then show ?thesis using inv by (rule inv_same_pages)
next
  case (AddPage now1 now2)
  with h have s': "s' = addPage now1 now2 s" by simp
  from fr AddPage have "now1 \<notin> set (map pid (pages s))" by simp
  with inv show ?thesis unfolding s' by (rule inv_addPage)
next
  case (RemovePage i)
  with h have s': "s' = removePage i s" by simp
  from inv show ?thesis unfolding s' by (rule inv_removePage)
next
  case (PageTitleChange i v)
  with h have s': "s' = handlePageTitleChange i v s" by simp
  from inv show ?thesis unfolding s' by (rule inv_handlePageTitleChange)
next
  case (MovePage i direction)
  with h have s': "s' = movePage i direction s" by simp
  from inv show ?thesis unfolding s' by (rule inv_movePage)
next
  case (AddQuestion clock pageId)
  with h have s': "s' = addQuestion clock pageId s" by simp
  from fr AddQuestion
  have "list_all (\<lambda>(k, p). pid p = pageId \<longrightarrow> clock k \<notin> set (question_ids (questions p)))
      (enumerate 0 (pages s))"
    by simp
  with inv show ?thesis unfolding s' by (rule inv_addQuestion)
next
  case (RemoveQuestion pageId i)
  with h have "removeQuestion pageId i s = Inr s'" by simp
  with inv show ?thesis by (rule inv_removeQuestion)
next
  case (QuestionChange pageId i key v)
  with h have "handleQuestionChange pageId i key v s = Inr s'" by simp
  with inv show ?thesis by (rule inv_handleQuestionChange)
next
  case (MoveQuestion pageId idx direction)
  with h have s': "s' = moveQuestion pageId idx direction s" by simp
  from inv show ?thesis unfolding s' by (rule inv_moveQuestion)
next
  case (QuestionDragStart pageId idx)
  with h have "pages s' = pages s" by (auto simp: handleQuestionDragStart_def)
  then show ?thesis using inv by (rule inv_same_pages)
next
  case (QuestionDrop pageId idx)
  with h have s': "s' = handleQuestionDrop pageId idx s" by simp
  from inv show ?thesis unfolding s' by (rule inv_handleQuestionDrop)
qed

lemma inv_run:
  "min_cardinality s \<and> distinct_ids s \<Longrightarrow> fresh_run es s \<Longrightarrow> run es s = Inr s' \<Longrightarrow>
   min_cardinality s' \<and> distinct_ids s'"
proof (induction es arbitrary: s)
  case Nil
  then show ?case by simp
next
  case (Cons e es)
  from Cons.prems(3) obtain t where t: "handle e s = Inr t" and r: "run es t = Inr s'"
    by (auto split: sum.splits)
  from Cons.prems(2) t have fr: "fresh e s" "fresh_run es t" by simp_all
  have "min_cardinality t \<and> distinct_ids t" using Cons.prems(1) fr(1) t by (rule inv_handle)
  then show ?case using fr(2) r by (rule Cons.IH)
qed

lemma inv_initial: "min_cardinality initial \<and> distinct_ids initial"
  by (simp add: initial_def min_cardinality_def distinct_ids_def question_ids_def)

text \<open>
  When every insertion of a run reads a clock value that is not yet an identifier of the
  collection it extends, every state of the run has at least one page and at least one
  question on every page, and its identifiers are distinct.
\<close>

theorem fresh_runs_keep_minimum:
  "fresh_run es initial \<Longrightarrow> run es initial = Inr s \<Longrightarrow> min_cardinality s \<and> distinct_ids s"
  using inv_initial by (rule inv_run)

theorem fresh_runs_keep_minimum_witness:
  "fresh_run [AddQuestion (steady_clock 1700000000000) 1, RemoveQuestion 1 1, RemoveQuestion 1 1700000000000,
              AddPage 1700000005000 1700000005000, RemovePage 1, RemovePage 1700000005000]
     initial \<and>
   run [AddQuestion (steady_clock 1700000000000) 1, RemoveQuestion 1 1, RemoveQuestion 1 1700000000000,
        AddPage 1700000005000 1700000005000, RemovePage 1, RemovePage 1700000005000]
     initial =
     Inr (initial\<lparr>pages :=
            [\<lparr> pid = 1700000005000, title = ''Untitled Page'',
               questions = [Some \<lparr> qid = 1700000005001, qtext = '''', qtype = ''yesno'' \<rparr>] \<rparr>]\<rparr>) \<and>
   min_cardinality
     (initial\<lparr>pages :=
            [\<lparr> pid = 1700000005000, title = ''Untitled Page'',
               questions = [Some \<lparr> qid = 1700000005001, qtext = '''', qtype = ''yesno'' \<rparr>] \<rparr>]\<rparr>)"
proof -
  let ?es = "[AddQuestion (steady_clock 1700000000000) 1, RemoveQuestion 1 1, RemoveQuestion 1 1700000000000,
              AddPage 1700000005000 1700000005000, RemovePage 1, RemovePage 1700000005000]"
  let ?s = "initial\<lparr>pages :=
            [\<lparr> pid = 1700000005000, title = ''Untitled Page'',
               questions = [Some \<lparr> qid = 1700000005001, qtext = '''', qtype = ''yesno'' \<rparr>] \<rparr>]\<rparr>"
  have r: "run ?es initial = Inr ?s"
    by (simp add: initial_def addQuestion_def addQuestion_page_def removeQuestion_def
        removeQuestion_page_def addPage_def removePage_def steady_clock_def)
  have f: "fresh_run ?es initial"
    by (simp add: initial_def addQuestion_def addQuestion_page_def removeQuestion_def
        removeQuestion_page_def addPage_def removePage_def question_ids_def steady_clock_def)
  from fresh_runs_keep_minimum [OF f r] f r show ?thesis by simp
qed

end
